theory Spec2Isabelle
  imports Main "HOL-Library.Multiset"
begin

section \<open>The profile serializer (profile-serializer.ts)\<close>

subsection \<open>Input trees\<close>

text \<open>
  A \<open>ProfileNode\<close> of the sampler tree carries the fields the serializer reads:
  \<open>name\<close>, \<open>scriptName\<close>, \<open>scriptId\<close>, \<open>lineNumber\<close>, \<open>columnNumber\<close> and
  \<open>children\<close>. A \<open>TimeProfileNode\<close> adds \<open>hitCount\<close>, an \<open>AllocationProfileNode\<close>
  adds \<open>allocations\<close>; both are the \<open>payload\<close> of the generic node. JavaScript numbers
  that hold integers are modelled as \<open>int\<close> (the arithmetic of the serializer is exact on
  them below \<open>2^53\<close>). The counters and sizes \<open>hitCount\<close>, \<open>count\<close> and \<open>sizeBytes\<close>,
  which the profiler of V8 reports as unsigned integers, are modelled as \<open>nat\<close>.
\<close>

datatype 'a ProfileNode =
  ProfileNode (name: string) (scriptName: string) (scriptId: int) (lineNumber: int)
    (columnNumber: int) (payload: 'a) (children: "'a ProfileNode list")

record Allocation =
  sizeBytes :: nat
  count :: nat

type_synonym TimeProfileNode = "nat ProfileNode"

type_synonym AllocationProfileNode = "Allocation list ProfileNode"

abbreviation hitCount :: "TimeProfileNode \<Rightarrow> nat" where
  "hitCount \<equiv> payload"

abbreviation allocations :: "AllocationProfileNode \<Rightarrow> Allocation list" where
  "allocations \<equiv> payload"

record TimeProfile =
  endTime :: int
  topDownRoot :: TimeProfileNode
  startTime :: int

subsection \<open>The profile message\<close>

text \<open>
  The messages of profile.proto, with the fields the serializer sets. A field that a
  constructor call leaves out keeps the default of the message type, which is 0 for
  \<open>startLine\<close>. Identifiers and string indices are array lengths, hence \<open>nat\<close>.
\<close>

record ValueType =
  vt_type :: nat
  vt_unit :: nat

record Sample =
  locationId :: "nat list"
  sampleValue :: "int list"

record Line =
  functionId :: nat
  line :: int

record Location =
  loc_id :: nat
  loc_line :: "Line list"

record Function =
  fn_id :: nat
  fn_name :: nat
  fn_systemName :: nat
  fn_filename :: nat
  fn_startLine :: int

record Profile =
  p_sampleType :: "ValueType list"
  p_sample :: "Sample list"
  p_location :: "Location list"
  p_function :: "Function list"
  p_stringTable :: "string list"
  p_timeNanos :: int
  p_durationNanos :: int
  p_periodType :: ValueType
  p_period :: int

subsection \<open>The string table\<close>

record StringTable =
  strings :: "string list"
  stringsMap :: "string \<rightharpoonup> nat"

text \<open>\<open>StringTable.getIndexOrAdd\<close>: the index of \<open>str\<close>, which is appended when the map
  does not know it. The table is mutated in place; the model returns the new table.\<close>

definition getIndexOrAdd :: "string \<Rightarrow> StringTable \<Rightarrow> nat \<times> StringTable" where
  "getIndexOrAdd str t =
     (case stringsMap t str of
        Some loc \<Rightarrow> (loc, t)
      | None \<Rightarrow>
          (let strs = strings t @ [str];
               loc = length strs - 1
           in (loc, \<lparr>strings = strs, stringsMap = (stringsMap t)(str \<mapsto> loc)\<rparr>)))"

text \<open>The constructor of \<open>StringTable\<close>: empty array and map, then \<open>getIndexOrAdd('')\<close>.\<close>

definition newStringTable :: StringTable where
  "newStringTable = snd (getIndexOrAdd [] \<lparr>strings = [], stringsMap = Map.empty\<rparr>)"

subsection \<open>Keys of the identifier maps\<close>

text \<open>
  The keys are template literals such as \<open>`${node.scriptId}:${node.name}`\<close>. The
  conversion of a number to a string is modelled for integers: decimal digits, with a
  leading minus sign for a negative number.
\<close>

definition digitChar :: "nat \<Rightarrow> char" where
  "digitChar d = ''0123456789'' ! (d mod 10)"

function natToString :: "nat \<Rightarrow> string" where
  "natToString n = (if n < 10 then [digitChar n] else natToString (n div 10) @ [digitChar n])"
  by pat_completeness auto
termination
  by (relation "measure (\<lambda>n. n)") auto

declare natToString.simps [simp del]

definition numberToString :: "int \<Rightarrow> string" where
  "numberToString i =
     (if i < 0 then CHR ''-'' # natToString (nat (- i)) else natToString (nat i))"

definition functionKey :: "'a ProfileNode \<Rightarrow> string" where
  "functionKey node = numberToString (scriptId node) @ '':'' @ name node"

definition locationKey :: "'a ProfileNode \<Rightarrow> string" where
  "locationKey node =
     numberToString (scriptId node) @ '':'' @ numberToString (lineNumber node) @ '':'' @
     numberToString (columnNumber node) @ '':'' @ name node"

subsection \<open>The local state of serialize\<close>

text \<open>
  The arrays and maps that \<open>serialize\<close> declares and its inner functions update, with
  the string table it is given. (\<open>locationMap\<close> and \<open>functionMap\<close> are declared and
  never used. The array \<open>functions\<close> is the field \<open>functions'\<close>.)
\<close>

record SerializeState =
  samples :: "Sample list"
  locations :: "Location list"
  functions' :: "Function list"
  functionIdMap :: "string \<rightharpoonup> nat"
  locationIdMap :: "string \<rightharpoonup> nat"
  stringTable :: StringTable

text \<open>
  An element read \<open>xs[id - 1]\<close> outside the array yields \<open>undefined\<close>, and the caller's
  read of its \<open>id\<close> throws a TypeError. The model raises at the element read: the result
  \<open>None\<close> is the thrown TypeError.
\<close>

definition elementAt :: "'b list \<Rightarrow> nat \<Rightarrow> 'b option" where
  "elementAt xs i = (if 1 \<le> i \<and> i \<le> length xs then Some (xs ! (i - 1)) else None)"

definition getFunction :: "'a ProfileNode \<Rightarrow> SerializeState \<Rightarrow> (Function \<times> SerializeState) option" where
  "getFunction node st =
     (let keyStr = functionKey node in
      case functionIdMap st keyStr of
        Some i \<Rightarrow> map_option (\<lambda>f. (f, st)) (elementAt (functions' st) i)
      | None \<Rightarrow>
          (let i = length (functions' st) + 1;
               (nameId, t1) = getIndexOrAdd (name node) (stringTable st);
               (fileId, t2) = getIndexOrAdd (scriptName node) t1;
               f = \<lparr>fn_id = i, fn_name = nameId, fn_systemName = nameId,
                    fn_filename = fileId, fn_startLine = 0\<rparr>
           in Some (f, st\<lparr>functionIdMap := (functionIdMap st)(keyStr \<mapsto> i),
                          stringTable := t2,
                          functions' := functions' st @ [f]\<rparr>)))"

definition getLine :: "'a ProfileNode \<Rightarrow> SerializeState \<Rightarrow> (Line \<times> SerializeState) option" where
  "getLine node st =
     (case getFunction node st of
        None \<Rightarrow> None
      | Some (f, st1) \<Rightarrow> Some (\<lparr>functionId = fn_id f, line = lineNumber node\<rparr>, st1))"

definition getLocation :: "'a ProfileNode \<Rightarrow> SerializeState \<Rightarrow> (Location \<times> SerializeState) option" where
  "getLocation node st =
     (let keyStr = locationKey node in
      case locationIdMap st keyStr of
        Some i \<Rightarrow> map_option (\<lambda>l. (l, st)) (elementAt (locations st) i)
      | None \<Rightarrow>
          (let i = length (locations st) + 1;
               st1 = st\<lparr>locationIdMap := (locationIdMap st)(keyStr \<mapsto> i)\<rparr>
           in case getLine node st1 of
                None \<Rightarrow> None
              | Some (ln, st2) \<Rightarrow>
                  (let location = \<lparr>loc_id = i, loc_line = [ln]\<rparr>
                   in Some (location, st2\<lparr>locations := locations st2 @ [location]\<rparr>))))"

subsection \<open>The traversal\<close>

text \<open>
  An entry is a node with the stack of location identifiers of its ancestors. The array
  \<open>entries\<close> is a list whose last element is the one \<open>pop\<close> takes and after which \<open>push\<close>
  appends. The callback \<open>appendToSamples\<close> receives the entry, whose stack already holds
  the node's own location at the front, and the samples, and returns the samples.
\<close>

type_synonym Stack = "nat list"

type_synonym 'a Entry = "'a ProfileNode \<times> Stack"

type_synonym 'a AppendEntryToSamples = "'a Entry \<Rightarrow> Sample list \<Rightarrow> Sample list"

function serialize_loop ::
  "'a AppendEntryToSamples \<Rightarrow> 'a Entry list \<Rightarrow> SerializeState \<Rightarrow> SerializeState option" where
  "serialize_loop appendToSamples entries st =
     (if entries = [] then Some st
      else
        (let entry = last entries;
             rest = butlast entries;
             node = fst entry;
             stack = snd entry
         in case getLocation node st of
              None \<Rightarrow> None
            | Some (location, st1) \<Rightarrow>
                (let stack1 = loc_id location # stack;
                     st2 = st1\<lparr>samples := appendToSamples (node, stack1) (samples st1)\<rparr>
                 in serialize_loop appendToSamples
                      (rest @ map (\<lambda>child. (child, stack1)) (children node)) st2)))"
  by pat_completeness auto
termination
proof (relation "measure (\<lambda>(a, es, s). sum_list (map (\<lambda>e. size (fst e)) es))", goal_cases)
  case 1
  show ?case by simp
next
  case (2 appendToSamples entries st entry rest node stack x2 location st1 stack1 st2)
  have "entries = butlast entries @ [last entries]"
    using 2(1) by simp
  then have split: "sum_list (map (\<lambda>e. size (fst e)) entries) =
      sum_list (map (\<lambda>e. size (fst e)) (butlast entries)) + size (fst (last entries))"
    by (metis (no_types, lifting) list.simps(8,9) map_append sum_list.Cons sum_list.Nil
        sum_list.append add.right_neutral)
  have le: "sum_list (map size cs) \<le> size_list size cs" for cs :: "'a ProfileNode list"
    by (induction cs) auto
  have less: "sum_list (map size (children node)) < size node"
    by (cases node) (simp add: le le_imp_less_Suc)
  have "sum_list (map (\<lambda>e. size (fst e)) (map (\<lambda>child. (child, stack1)) (children node))) =
      sum_list (map size (children node))"
    by (simp add: comp_def)
  with split less 2 show ?case
    by simp
qed

declare serialize_loop.simps [simp del]

text \<open>
  \<open>serialize\<close> runs the loop on the children of the root, each with an empty stack,
  from empty arrays and maps, and stores the arrays and the strings into the profile.
\<close>

definition initialState :: "StringTable \<Rightarrow> SerializeState" where
  "initialState table =
     \<lparr>samples = [], locations = [], functions' = [], functionIdMap = Map.empty,
      locationIdMap = Map.empty, stringTable = table\<rparr>"

definition serialize_run ::
  "'a ProfileNode \<Rightarrow> 'a AppendEntryToSamples \<Rightarrow> StringTable \<Rightarrow> SerializeState option" where
  "serialize_run root appendToSamples table =
     serialize_loop appendToSamples (map (\<lambda>n. (n, [])) (children root)) (initialState table)"

definition serialize ::
  "Profile \<Rightarrow> 'a ProfileNode \<Rightarrow> 'a AppendEntryToSamples \<Rightarrow> StringTable \<Rightarrow> Profile option" where
  "serialize profile root appendToSamples table =
     (case serialize_run root appendToSamples table of
        None \<Rightarrow> None
      | Some st \<Rightarrow>
          Some (profile\<lparr>p_sample := samples st, p_location := locations st,
                        p_function := functions' st,
                        p_stringTable := strings (stringTable st)\<rparr>))"

subsection \<open>Value types\<close>

definition createSampleValueType :: "StringTable \<Rightarrow> ValueType \<times> StringTable" where
  "createSampleValueType table =
     (let (t, table1) = getIndexOrAdd ''samples'' table;
          (u, table2) = getIndexOrAdd ''count'' table1
      in (\<lparr>vt_type = t, vt_unit = u\<rparr>, table2))"

definition createTimeValueType :: "StringTable \<Rightarrow> ValueType \<times> StringTable" where
  "createTimeValueType table =
     (let (t, table1) = getIndexOrAdd ''time'' table;
          (u, table2) = getIndexOrAdd ''microseconds'' table1
      in (\<lparr>vt_type = t, vt_unit = u\<rparr>, table2))"

definition createAllocationValueType :: "StringTable \<Rightarrow> ValueType \<times> StringTable" where
  "createAllocationValueType table =
     (let (t, table1) = getIndexOrAdd ''space'' table;
          (u, table2) = getIndexOrAdd ''bytes'' table1
      in (\<lparr>vt_type = t, vt_unit = u\<rparr>, table2))"

subsection \<open>Time profiles\<close>

definition appendTimeEntryToSamples :: "int \<Rightarrow> nat AppendEntryToSamples" where
  "appendTimeEntryToSamples intervalMicros entry smpls =
     (if hitCount (fst entry) > 0
      then smpls @ [\<lparr>locationId = snd entry,
                     sampleValue = [int (hitCount (fst entry)),
                                    int (hitCount (fst entry)) * intervalMicros]\<rparr>]
      else smpls)"

definition serializeTimeProfile :: "TimeProfile \<Rightarrow> int \<Rightarrow> Profile option" where
  "serializeTimeProfile prof intervalMicros =
     (let table0 = newStringTable;
          (sampleValueType, table1) = createSampleValueType table0;
          (timeValueType, table2) = createTimeValueType table1;
          profile = \<lparr>p_sampleType = [sampleValueType, timeValueType],
                     p_sample = [], p_location = [], p_function = [], p_stringTable = [],
                     p_timeNanos = startTime prof * 1000 * 1000,
                     p_durationNanos = (endTime prof - startTime prof) * 1000 * 1000,
                     p_periodType = timeValueType,
                     p_period = intervalMicros\<rparr>
      in serialize profile (topDownRoot prof) (appendTimeEntryToSamples intervalMicros) table2)"

subsection \<open>Heap profiles\<close>

definition appendHeapEntryToSamples :: "Allocation list AppendEntryToSamples" where
  "appendHeapEntryToSamples entry smpls =
     (if length (allocations (fst entry)) > 0
      then smpls @ map (\<lambda>alloc. \<lparr>locationId = snd entry,
                                  sampleValue = [int (count alloc),
                                                 int (sizeBytes alloc) * int (count alloc)]\<rparr>)
                       (allocations (fst entry))
      else smpls)"

definition serializeHeapProfile :: "AllocationProfileNode \<Rightarrow> int \<Rightarrow> int \<Rightarrow> int \<Rightarrow> Profile option" where
  "serializeHeapProfile prof startTimeNanos durationNanos intervalBytes =
     (let table0 = newStringTable;
          (sampleValueType, table1) = createSampleValueType table0;
          (allocationValueType, table2) = createAllocationValueType table1;
          profile = \<lparr>p_sampleType = [sampleValueType, allocationValueType],
                     p_sample = [], p_location = [], p_function = [], p_stringTable = [],
                     p_timeNanos = startTimeNanos,
                     p_durationNanos = durationNanos,
                     p_periodType = allocationValueType,
                     p_period = intervalBytes\<rparr>
      in serialize profile prof appendHeapEntryToSamples table2)"

section \<open>Polling for a profile (profiler.ts)\<close>










section \<open>The interning tables of the native serializer (serialize.cc)\<close>

text \<open>
  The class \<open>Node\<close>, \<open>LocationKey\<close> and \<open>FunctionKey\<close> are declared in a header that
  is not among the sources: a node is the record of what its observers return, a key the
  tuple of the constructor's arguments. Identifiers and indices are sizes of vectors and
  are modelled as \<open>nat\<close>; they stay far below the range of \<open>int64_t\<close>.
\<close>

record Node =
  n_fileID :: int
  n_lineNumber :: int
  n_columnNumber :: int
  n_name :: string
  n_filename :: string

record CValueType =
  typeX :: nat
  unitX :: nat

record CLine =
  c_functionID :: nat
  c_line :: int

record ProfileFunction =
  pf_id :: nat
  pf_nameX :: nat
  pf_systemNameX :: nat
  pf_filenameX :: nat
  pf_startLine :: int

record ProfileLocation =
  pl_id :: nat
  pl_mappingID :: nat
  pl_address :: nat
  pl_line :: "CLine list"
  pl_isFolded :: bool

record CProfile =
  c_sampleType :: "CValueType list"
  c_location :: "ProfileLocation list"
  c_function :: "ProfileFunction list"
  c_strings :: "string list"
  c_stringIDMap :: "string \<rightharpoonup> nat"
  c_functionIDMap :: "int \<times> string \<rightharpoonup> nat"
  c_locationIDMap :: "int \<times> int \<times> int \<times> string \<rightharpoonup> nat"
  c_period :: int
  c_timeNanos :: int
  c_durationNanos :: int
  c_periodType :: CValueType
  c_dropFramesX :: nat
  c_keepFramesX :: nat
  c_defaultSampleTypeX :: nat

definition stringID :: "string \<Rightarrow> CProfile \<Rightarrow> nat \<times> CProfile" where
  "stringID s p =
     (case c_stringIDMap p s of
        Some i \<Rightarrow> (i, p)
      | None \<Rightarrow>
          (let i = length (c_strings p)
           in (i, p\<lparr>c_stringIDMap := (c_stringIDMap p)(s \<mapsto> i),
                    c_strings := c_strings p @ [s]\<rparr>)))"

definition functionID :: "Node \<Rightarrow> CProfile \<Rightarrow> nat \<times> CProfile" where
  "functionID node p =
     (let nm = n_name node;
          key = (n_fileID node, nm)
      in case c_functionIDMap p key of
           Some i \<Rightarrow> (i, p)
         | None \<Rightarrow>
             (let (nameX, p1) = stringID nm p;
                  (filenameX, p2) = stringID (n_filename node) p1;
                  i = length (c_function p2) + 1;
                  f = \<lparr>pf_id = i, pf_nameX = nameX, pf_systemNameX = nameX,
                       pf_filenameX = filenameX, pf_startLine = n_lineNumber node\<rparr>
              in (i, p2\<lparr>c_function := c_function p2 @ [f],
                        c_functionIDMap := (c_functionIDMap p2)(key \<mapsto> i)\<rparr>)))"

definition cline :: "Node \<Rightarrow> CProfile \<Rightarrow> CLine \<times> CProfile" where
  "cline node p =
     (let (fid, p1) = functionID node p
      in (\<lparr>c_functionID = fid, c_line = n_lineNumber node\<rparr>, p1))"

definition locationID :: "Node \<Rightarrow> CProfile \<Rightarrow> nat \<times> CProfile" where
  "locationID node p =
     (let key = (n_fileID node, n_lineNumber node, n_columnNumber node, n_name node)
      in case c_locationIDMap p key of
           Some i \<Rightarrow> (i, p)
         | None \<Rightarrow>
             (let i = length (c_location p) + 1;
                  (ln, p1) = cline node p;
                  l = \<lparr>pl_id = i, pl_mappingID = 0, pl_address = 0, pl_line = [ln],
                       pl_isFolded = False\<rparr>
              in (i, p1\<lparr>c_location := c_location p1 @ [l],
                        c_locationIDMap := (c_locationIDMap p1)(key \<mapsto> i)\<rparr>)))"

text \<open>
  The constructor \<open>Profile::Profile\<close>. C++ does not fix the order in which the two
  arguments of \<open>ValueType(stringID(periodType), stringID(periodUnit))\<close> are evaluated;
  \<open>typeFirst\<close> says whether the type is interned before the unit.
\<close>

definition newProfile ::
  "bool \<Rightarrow> string \<Rightarrow> string \<Rightarrow> int \<Rightarrow> int \<Rightarrow> int \<Rightarrow> string \<Rightarrow> string \<Rightarrow> CProfile" where
  "newProfile typeFirst periodType periodUnit period timeNanos durationNanos dropFrames keepFrames =
     (let p0 = \<lparr>c_sampleType = [], c_location = [], c_function = [], c_strings = [],
                c_stringIDMap = Map.empty, c_functionIDMap = Map.empty,
                c_locationIDMap = Map.empty, c_period = period, c_timeNanos = timeNanos,
                c_durationNanos = durationNanos,
                c_periodType = \<lparr>typeX = 0, unitX = 0\<rparr>,
                c_dropFramesX = 0, c_keepFramesX = 0, c_defaultSampleTypeX = 0\<rparr>;
          (e, p1) = stringID [] p0;
          (t, u, p3) =
            (if typeFirst then
               (let (t, p2) = stringID periodType p1; (u, p3) = stringID periodUnit p2
                in (t, u, p3))
             else
               (let (u, p2) = stringID periodUnit p1; (t, p3) = stringID periodType p2
                in (t, u, p3)));
          p4 = p3\<lparr>c_periodType := \<lparr>typeX = t, unitX = u\<rparr>\<rparr>;
          (d, p5) = stringID dropFrames p4;
          p6 = p5\<lparr>c_dropFramesX := d\<rparr>;
          (k, p7) = stringID keepFrames p6
      in p7\<lparr>c_keepFramesX := k\<rparr>)"

section \<open>Predicates and orders used in the statements\<close>

text \<open>The string table is consistent: the map sends a string to a position that holds it.\<close>

definition wf_table :: "StringTable \<Rightarrow> bool" where
  "wf_table t \<longleftrightarrow>
     (\<forall>k i. stringsMap t k = Some i \<longrightarrow> i < length (strings t) \<and> strings t ! i = k)"

definition wf_functions :: "SerializeState \<Rightarrow> bool" where
  "wf_functions st \<longleftrightarrow>
     wf_table (stringTable st) \<and>
     (\<forall>k i. functionIdMap st k = Some i \<longrightarrow> 1 \<le> i \<and> i \<le> length (functions' st)) \<and>
     (\<forall>i < length (functions' st). fn_id (functions' st ! i) = i + 1) \<and>
     (\<forall>f \<in> set (functions' st).
        fn_name f < length (strings (stringTable st)) \<and>
        fn_systemName f < length (strings (stringTable st)) \<and>
        fn_filename f < length (strings (stringTable st)))"

definition wf_locations :: "SerializeState \<Rightarrow> bool" where
  "wf_locations st \<longleftrightarrow>
     (\<forall>k i. locationIdMap st k = Some i \<longrightarrow> 1 \<le> i \<and> i \<le> length (locations st)) \<and>
     (\<forall>k k' i. locationIdMap st k = Some i \<longrightarrow> locationIdMap st k' = Some i \<longrightarrow> k = k') \<and>
     (\<forall>i < length (locations st). loc_id (locations st ! i) = i + 1) \<and>
     (\<forall>l \<in> set (locations st). \<forall>ln \<in> set (loc_line l).
        1 \<le> functionId ln \<and> functionId ln \<le> length (functions' st))"

definition wf_samples :: "SerializeState \<Rightarrow> bool" where
  "wf_samples st \<longleftrightarrow>
     (\<forall>s \<in> set (samples st). \<forall>i \<in> set (locationId s). 1 \<le> i \<and> i \<le> length (locations st))"

definition wf_state :: "SerializeState \<Rightarrow> bool" where
  "wf_state st \<longleftrightarrow> wf_functions st \<and> wf_locations st \<and> wf_samples st"

text \<open>\<open>visited V st\<close>: the maps of \<open>st\<close> hold exactly the keys of the nodes in \<open>V\<close>, and
  each table has one entry per key.\<close>

definition visited :: "'a ProfileNode set \<Rightarrow> SerializeState \<Rightarrow> bool" where
  "visited V st \<longleftrightarrow>
     finite V \<and>
     dom (locationIdMap st) = locationKey ` V \<and>
     dom (functionIdMap st) = functionKey ` V \<and>
     card (locationKey ` V) = length (locations st) \<and>
     card (functionKey ` V) = length (functions' st)"

definition entriesSize :: "('a ProfileNode \<times> 'b) list \<Rightarrow> nat" where
  "entriesSize es = sum_list (map (\<lambda>e. size (fst e)) es)"

text \<open>
  \<open>treeOrder n anc\<close> lists the nodes of the subtree of \<open>n\<close>, each with its ancestors
  (nearest first, \<open>anc\<close> being those of \<open>n\<close>), in the order in which the loop visits them:
  the node first, then the subtrees of its children, the last child first.
  \<open>subtreePaths\<close> lists the same pairs with the children in the order of the source.
\<close>

fun treeOrder :: "'a ProfileNode \<Rightarrow> 'a ProfileNode list \<Rightarrow> ('a ProfileNode \<times> 'a ProfileNode list) list" where
  "treeOrder (ProfileNode nm sn sid ln cn p cs) anc =
     (ProfileNode nm sn sid ln cn p cs, anc) #
     concat (map (\<lambda>c. treeOrder c (ProfileNode nm sn sid ln cn p cs # anc)) (rev cs))"

definition forestOrder :: "('a ProfileNode \<times> 'a ProfileNode list) list \<Rightarrow> ('a ProfileNode \<times> 'a ProfileNode list) list" where
  "forestOrder ges = concat (map (\<lambda>g. treeOrder (fst g) (snd g)) (rev ges))"

definition visitOrder :: "'a ProfileNode \<Rightarrow> ('a ProfileNode \<times> 'a ProfileNode list) list" where
  "visitOrder root = forestOrder (map (\<lambda>c. (c, [])) (children root))"

fun subtreePaths :: "'a ProfileNode \<Rightarrow> 'a ProfileNode list \<Rightarrow> ('a ProfileNode \<times> 'a ProfileNode list) list" where
  "subtreePaths (ProfileNode nm sn sid ln cn p cs) anc =
     (ProfileNode nm sn sid ln cn p cs, anc) #
     concat (map (\<lambda>c. subtreePaths c (ProfileNode nm sn sid ln cn p cs # anc)) cs)"

text \<open>All nodes of the tree but the root, parents before children, siblings in the
  order of \<open>children\<close>.\<close>

definition descendants :: "'a ProfileNode \<Rightarrow> 'a ProfileNode list" where
  "descendants root = map fst (concat (map (\<lambda>c. subtreePaths c []) (children root)))"

text \<open>\<open>ancestry root path\<close>: each node of the path is a child of the next one, and the
  last one is a child of the root.\<close>

fun ancestry :: "'a ProfileNode \<Rightarrow> 'a ProfileNode list \<Rightarrow> bool" where
  "ancestry root [] = False"
| "ancestry root [n] = (n \<in> set (children root))"
| "ancestry root (n # p # rest) = (n \<in> set (children p) \<and> ancestry root (p # rest))"

definition lid :: "SerializeState \<Rightarrow> 'a ProfileNode \<Rightarrow> nat" where
  "lid st n = the (locationIdMap st (locationKey n))"

text \<open>
  The tables describe the nodes of \<open>W\<close>: the function that the map gives for the key
  of a node bears the node's name, and the location that the map gives for the key of a
  node has one line, with the node's line number and the function of the node.
\<close>

definition namedFunctions :: "'a ProfileNode set \<Rightarrow> SerializeState \<Rightarrow> bool" where
  "namedFunctions W st \<longleftrightarrow>
     (\<forall>m \<in> W. \<forall>fi. functionIdMap st (functionKey m) = Some fi \<longrightarrow>
        strings (stringTable st) ! fn_name (functions' st ! (fi - 1)) = name m)"

definition describedLocations :: "'a ProfileNode set \<Rightarrow> SerializeState \<Rightarrow> bool" where
  "describedLocations W st \<longleftrightarrow>
     (\<forall>m \<in> W. \<forall>i. locationIdMap st (locationKey m) = Some i \<longrightarrow>
        (\<exists>fi. functionIdMap st (functionKey m) = Some fi \<and>
              loc_line (locations st ! (i - 1)) = [\<lparr>functionId = fi, line = lineNumber m\<rparr>]))"

text \<open>\<open>locationOf p n i\<close>: the location \<open>i\<close> of the profile \<open>p\<close> is that of the node
  \<open>n\<close>: it has one line, which bears the line number of \<open>n\<close> and a function whose name
  is the name of \<open>n\<close>.\<close>

definition locationOf :: "Profile \<Rightarrow> 'a ProfileNode \<Rightarrow> nat \<Rightarrow> bool" where
  "locationOf p n i \<longleftrightarrow>
     1 \<le> i \<and> i \<le> length (p_location p) \<and> loc_id (p_location p ! (i - 1)) = i \<and>
     (case loc_line (p_location p ! (i - 1)) of
        [ln] \<Rightarrow>
          line ln = lineNumber n \<and> 1 \<le> functionId ln \<and> functionId ln \<le> length (p_function p) \<and>
          fn_name (p_function p ! (functionId ln - 1)) < length (p_stringTable p) \<and>
          p_stringTable p ! fn_name (p_function p ! (functionId ln - 1)) = name n
      | _ \<Rightarrow> False)"

text \<open>
  Identifiers of locations are given in the order in which the traversal first meets the
  keys: \<open>locationKeys root\<close> lists the location keys of the nodes in the order of the
  visit, each at its first occurrence, and \<open>locationIdOf root n\<close> is the position of the
  key of \<open>n\<close> in that list, counted from 1. \<open>allocated ks st\<close>: the map of \<open>st\<close> sends
  exactly the keys of \<open>ks\<close> to their positions, and there is one location per key.
\<close>

fun indexOf :: "'k list \<Rightarrow> 'k \<Rightarrow> nat" where
  "indexOf [] k = 0"
| "indexOf (x # xs) k = (if x = k then 0 else Suc (indexOf xs k))"

definition keysInOrder :: "'k list \<Rightarrow> 'k list" where
  "keysInOrder xs = rev (remdups (rev xs))"

definition locationKeys :: "'a ProfileNode \<Rightarrow> string list" where
  "locationKeys root = keysInOrder (map (\<lambda>g. locationKey (fst g)) (visitOrder root))"

definition locationIdOf :: "'a ProfileNode \<Rightarrow> 'a ProfileNode \<Rightarrow> nat" where
  "locationIdOf root n = indexOf (locationKeys root) (locationKey n) + 1"

definition allocated :: "string list \<Rightarrow> SerializeState \<Rightarrow> bool" where
  "allocated ks st \<longleftrightarrow>
     distinct ks \<and> length (locations st) = length ks \<and>
     (\<forall>k i. locationIdMap st k = Some i \<longleftrightarrow> 1 \<le> i \<and> i \<le> length ks \<and> ks ! (i - 1) = k)"

text \<open>The references inside a profile point into its tables.\<close>

definition validReferences :: "Profile \<Rightarrow> bool" where
  "validReferences p \<longleftrightarrow>
     (\<forall>k < length (p_function p). fn_id (p_function p ! k) = k + 1) \<and>
     (\<forall>k < length (p_location p). loc_id (p_location p ! k) = k + 1) \<and>
     (\<forall>s \<in> set (p_sample p). \<forall>l \<in> set (locationId s). 1 \<le> l \<and> l \<le> length (p_location p)) \<and>
     (\<forall>l \<in> set (p_location p). \<forall>ln \<in> set (loc_line l).
        1 \<le> functionId ln \<and> functionId ln \<le> length (p_function p)) \<and>
     (\<forall>v \<in> set (p_sampleType p).
        vt_type v < length (p_stringTable p) \<and> vt_unit v < length (p_stringTable p)) \<and>
     (\<forall>f \<in> set (p_function p).
        fn_name f < length (p_stringTable p) \<and> fn_systemName f < length (p_stringTable p) \<and>
        fn_filename f < length (p_stringTable p))"

text \<open>
  The samples that the callbacks of \<open>serializeTimeProfile\<close> and \<open>serializeHeapProfile\<close>
  append for an entry: its node and the stack that \<open>serialize\<close> hands over with it.
\<close>

definition timeSamples :: "int \<Rightarrow> nat Entry \<Rightarrow> Sample list" where
  "timeSamples intervalMicros entry =
     (if hitCount (fst entry) > 0
      then [\<lparr>locationId = snd entry,
             sampleValue = [int (hitCount (fst entry)),
                            int (hitCount (fst entry)) * intervalMicros]\<rparr>]
      else [])"

definition heapSamples :: "Allocation list Entry \<Rightarrow> Sample list" where
  "heapSamples entry =
     map (\<lambda>alloc. \<lparr>locationId = snd entry,
                     sampleValue = [int (count alloc), int (sizeBytes alloc) * int (count alloc)]\<rparr>)
       (allocations (fst entry))"

section \<open>Example inputs\<close>

definition exNodeC :: TimeProfileNode where
  "exNodeC = ProfileNode ''c'' ''a.js'' 1 12 0 5 []"

definition exNodeA :: TimeProfileNode where
  "exNodeA = ProfileNode ''a'' ''a.js'' 1 10 0 1 [exNodeC]"

definition exNodeB :: TimeProfileNode where
  "exNodeB = ProfileNode ''b'' ''a.js'' 1 11 0 2 []"

definition exTimeProfile :: TimeProfile where
  "exTimeProfile =
     \<lparr>endTime = 2,
      topDownRoot = ProfileNode ''(root)'' ''root'' 0 0 0 0 [exNodeA, exNodeB],
      startTime = 1\<rparr>"

definition exTimeOutput :: Profile where
  "exTimeOutput =
     \<lparr>p_sampleType = [\<lparr>vt_type = 1, vt_unit = 2\<rparr>, \<lparr>vt_type = 3, vt_unit = 4\<rparr>],
      p_sample =
        [\<lparr>locationId = [1], sampleValue = [2, 2]\<rparr>,
         \<lparr>locationId = [2], sampleValue = [1, 1]\<rparr>,
         \<lparr>locationId = [3, 2], sampleValue = [5, 5]\<rparr>],
      p_location =
        [\<lparr>loc_id = 1, loc_line = [\<lparr>functionId = 1, line = 11\<rparr>]\<rparr>,
         \<lparr>loc_id = 2, loc_line = [\<lparr>functionId = 2, line = 10\<rparr>]\<rparr>,
         \<lparr>loc_id = 3, loc_line = [\<lparr>functionId = 3, line = 12\<rparr>]\<rparr>],
      p_function =
        [\<lparr>fn_id = 1, fn_name = 5, fn_systemName = 5, fn_filename = 6, fn_startLine = 0\<rparr>,
         \<lparr>fn_id = 2, fn_name = 7, fn_systemName = 7, fn_filename = 6, fn_startLine = 0\<rparr>,
         \<lparr>fn_id = 3, fn_name = 8, fn_systemName = 8, fn_filename = 6, fn_startLine = 0\<rparr>],
      p_stringTable =
        [[], ''samples'', ''count'', ''time'', ''microseconds'', ''b'', ''a.js'', ''a'', ''c''],
      p_timeNanos = 1000000, p_durationNanos = 1000000,
      p_periodType = \<lparr>vt_type = 3, vt_unit = 4\<rparr>, p_period = 1\<rparr>"

definition exNodeY :: AllocationProfileNode where
  "exNodeY = ProfileNode ''y'' ''h.js'' 2 7 3 [] []"

definition exNodeX :: AllocationProfileNode where
  "exNodeX = ProfileNode ''x'' ''h.js'' 2 5 1
     [\<lparr>sizeBytes = 8, count = 2\<rparr>, \<lparr>sizeBytes = 16, count = 1\<rparr>] [exNodeY]"

definition exHeapProfile :: AllocationProfileNode where
  "exHeapProfile = ProfileNode ''(root)'' ''root'' 0 0 0 [] [exNodeX]"

definition exHeapOutput :: Profile where
  "exHeapOutput =
     \<lparr>p_sampleType = [\<lparr>vt_type = 1, vt_unit = 2\<rparr>, \<lparr>vt_type = 3, vt_unit = 4\<rparr>],
      p_sample =
        [\<lparr>locationId = [1], sampleValue = [2, 16]\<rparr>,
         \<lparr>locationId = [1], sampleValue = [1, 16]\<rparr>],
      p_location =
        [\<lparr>loc_id = 1, loc_line = [\<lparr>functionId = 1, line = 5\<rparr>]\<rparr>,
         \<lparr>loc_id = 2, loc_line = [\<lparr>functionId = 2, line = 7\<rparr>]\<rparr>],
      p_function =
        [\<lparr>fn_id = 1, fn_name = 5, fn_systemName = 5, fn_filename = 6, fn_startLine = 0\<rparr>,
         \<lparr>fn_id = 2, fn_name = 7, fn_systemName = 7, fn_filename = 6, fn_startLine = 0\<rparr>],
      p_stringTable = [[], ''samples'', ''count'', ''space'', ''bytes'', ''x'', ''h.js'', ''y''],
      p_timeNanos = 0, p_durationNanos = 10,
      p_periodType = \<lparr>vt_type = 3, vt_unit = 4\<rparr>, p_period = 512\<rparr>"

definition exState :: SerializeState where
  "exState = initialState newStringTable"

definition exNode :: Node where
  "exNode = \<lparr>n_fileID = 1, n_lineNumber = 10, n_columnNumber = 0, n_name = ''f'',
              n_filename = ''a.js''\<rparr>"

definition exProfile :: CProfile where
  "exProfile = newProfile True ''time'' ''microseconds'' 1000 0 10 [] []"

definition exS1 :: TimeProfile where
  "exS1 = \<lparr>endTime = 10000000000,
            topDownRoot = ProfileNode ''(root)'' ''root'' 0 0 0 0
              [ProfileNode ''f'' ''a.js'' 1 10 0 3 []],
            startTime = 0\<rparr>"


section \<open>Lemmas about the serializer\<close>

lemma children_size_less:
  "sum_list (map size (children node)) < size node"
proof -
  have le: "sum_list (map size cs) \<le> size_list size cs" for cs :: "'a ProfileNode list"
    by (induction cs) auto
  show ?thesis
    by (cases node) (simp add: le le_imp_less_Suc)
qed

subsection \<open>Facts about the string table\<close>

lemma getIndexOrAdd_hit:
  "stringsMap t s = Some i \<Longrightarrow> getIndexOrAdd s t = (i, t)"
  by (simp add: getIndexOrAdd_def)

lemma getIndexOrAdd_miss:
  "stringsMap t s = None \<Longrightarrow>
   getIndexOrAdd s t =
     (length (strings t), \<lparr>strings = strings t @ [s], stringsMap = (stringsMap t)(s \<mapsto> length (strings t))\<rparr>)"
  by (simp add: getIndexOrAdd_def Let_def)

lemma getIndexOrAdd_known:
  "getIndexOrAdd s t = (i, t') \<Longrightarrow> stringsMap t' s = Some i"
  by (auto simp: getIndexOrAdd_def Let_def split: option.splits)

lemma getIndexOrAdd_again:
  "getIndexOrAdd s t = (i, t') \<Longrightarrow> getIndexOrAdd s t' = (i, t')"
  by (rule getIndexOrAdd_hit) (rule getIndexOrAdd_known)

lemma getIndexOrAdd_extends:
  "getIndexOrAdd s t = (i, t') \<Longrightarrow> \<exists>ys. strings t' = strings t @ ys"
  by (auto simp: getIndexOrAdd_def Let_def split: option.splits)

lemma getIndexOrAdd_wf:
  assumes "wf_table t" and "getIndexOrAdd s t = (i, t')"
  shows "wf_table t' \<and> i < length (strings t') \<and> strings t' ! i = s"
proof (cases "stringsMap t s")
  case None
  with assms(2) have t': "t' = \<lparr>strings = strings t @ [s],
      stringsMap = (stringsMap t)(s \<mapsto> length (strings t))\<rparr>" and i: "i = length (strings t)"
    by (auto simp: getIndexOrAdd_def Let_def)
  have "wf_table t'"
    unfolding wf_table_def t' using assms(1)
    by (auto simp: wf_table_def nth_append less_Suc_eq)
  then show ?thesis by (simp add: t' i)
next
  case (Some j)
  with assms show ?thesis
    by (auto simp: getIndexOrAdd_def wf_table_def)
qed

lemma wf_table_new: "wf_table newStringTable"
  by (simp add: newStringTable_def getIndexOrAdd_def wf_table_def Let_def)

lemma strings_new: "strings newStringTable = [[]]"
  by (simp add: newStringTable_def getIndexOrAdd_def Let_def)

subsection \<open>Facts about the keys\<close>

lemma digitChar_not_colon: "digitChar d \<noteq> CHR '':''"
proof -
  have "digitChar d \<in> set ''0123456789''"
    unfolding digitChar_def by (rule nth_mem) simp
  then show ?thesis by auto
qed

lemma natToString_no_colon: "CHR '':'' \<notin> set (natToString n)"
proof (induction n rule: natToString.induct)
  case (1 n)
  show ?case
  proof (cases "n < 10")
    case True
    then have "natToString n = [digitChar n]"
      by (subst natToString.simps) simp
    then show ?thesis using digitChar_not_colon [of n] by simp
  next
    case False
    then have "natToString n = natToString (n div 10) @ [digitChar n]"
      by (subst natToString.simps) simp
    with 1 False digitChar_not_colon [of n] show ?thesis by simp
  qed
qed

lemma numberToString_no_colon: "CHR '':'' \<notin> set (numberToString i)"
  by (simp add: numberToString_def natToString_no_colon)

lemma split_at_colon:
  assumes "a @ CHR '':'' # b = c @ CHR '':'' # d"
    and "CHR '':'' \<notin> set a" and "CHR '':'' \<notin> set c"
  shows "a = c \<and> b = d"
  using assms
proof (induction a arbitrary: c)
  case Nil
  then show ?case by (cases c) auto
next
  case (Cons x a)
  then show ?case by (cases c) auto
qed

lemma locationKey_functionKey:
  assumes "locationKey m = locationKey n"
  shows "functionKey m = functionKey n"
proof -
  let ?c = "CHR '':''"
  from assms have "numberToString (scriptId m) @ ?c #
        (numberToString (lineNumber m) @ '':'' @ numberToString (columnNumber m) @ '':'' @ name m) =
      numberToString (scriptId n) @ ?c #
        (numberToString (lineNumber n) @ '':'' @ numberToString (columnNumber n) @ '':'' @ name n)"
    by (simp add: locationKey_def)
  from split_at_colon [OF this numberToString_no_colon numberToString_no_colon]
  have sid: "numberToString (scriptId m) = numberToString (scriptId n)"
    and r1: "numberToString (lineNumber m) @ ?c # (numberToString (columnNumber m) @ '':'' @ name m) =
      numberToString (lineNumber n) @ ?c # (numberToString (columnNumber n) @ '':'' @ name n)"
    by simp_all
  from split_at_colon [OF r1 numberToString_no_colon numberToString_no_colon]
  have r2: "numberToString (columnNumber m) @ ?c # name m =
      numberToString (columnNumber n) @ ?c # name n"
    by simp
  from split_at_colon [OF r2 numberToString_no_colon numberToString_no_colon]
  have "name m = name n" by simp
  with sid show ?thesis by (simp add: functionKey_def)
qed

lemma digitChar_inj:
  assumes "digitChar a = digitChar b"
  shows "a mod 10 = b mod 10"
proof -
  have d: "distinct ''0123456789''" by simp
  have "a mod 10 < length ''0123456789''" "b mod 10 < length ''0123456789''" by simp_all
  with d assms show ?thesis
    unfolding digitChar_def by (simp only: nth_eq_iff_index_eq)
qed

lemma digitChar_not_minus: "digitChar d \<noteq> CHR ''-''"
proof -
  have "digitChar d \<in> set ''0123456789''"
    unfolding digitChar_def by (rule nth_mem) simp
  then show ?thesis by auto
qed

lemma natToString_not_Nil: "natToString n \<noteq> []"
  by (subst natToString.simps) simp

lemma natToString_hd: "hd (natToString n) \<noteq> CHR ''-''"
proof (induction n rule: natToString.induct)
  case (1 n)
  show ?case
  proof (cases "n < 10")
    case True
    then have "natToString n = [digitChar n]"
      by (subst natToString.simps) simp
    then show ?thesis using digitChar_not_minus [of n] by simp
  next
    case False
    then have "natToString n = natToString (n div 10) @ [digitChar n]"
      by (subst natToString.simps) simp
    with 1 False natToString_not_Nil [of "n div 10"] show ?thesis by simp
  qed
qed

lemma natToString_inj: "natToString a = natToString b \<Longrightarrow> a = b"
proof (induction a arbitrary: b rule: natToString.induct)
  case (1 n)
  show ?case
  proof (cases "n < 10")
    case True
    then have n: "natToString n = [digitChar n]"
      by (subst natToString.simps) simp
    show ?thesis
    proof (cases "b < 10")
      case b: True
      then have "natToString b = [digitChar b]"
        by (subst natToString.simps) simp
      with n "1.prems" have "digitChar n = digitChar b" by simp
      from digitChar_inj [OF this] True b show ?thesis by simp
    next
      case False
      then have "natToString b = natToString (b div 10) @ [digitChar b]"
        by (subst natToString.simps) simp
      with n "1.prems" natToString_not_Nil [of "b div 10"] show ?thesis
        by (simp add: Cons_eq_append_conv)
    qed
  next
    case False
    then have n: "natToString n = natToString (n div 10) @ [digitChar n]"
      by (subst natToString.simps) simp
    show ?thesis
    proof (cases "b < 10")
      case True
      then have "natToString b = [digitChar b]"
        by (subst natToString.simps) simp
      with n "1.prems" natToString_not_Nil [of "n div 10"] show ?thesis
        by (simp add: append_eq_Cons_conv)
    next
      case b: False
      then have "natToString b = natToString (b div 10) @ [digitChar b]"
        by (subst natToString.simps) simp
      with n "1.prems" have e: "natToString (n div 10) = natToString (b div 10)"
        and d: "digitChar n = digitChar b"
        by simp_all
      from "1.IH" [OF False e] have "n div 10 = b div 10" .
      moreover from digitChar_inj [OF d] have "n mod 10 = b mod 10" .
      ultimately show ?thesis
        by (metis div_mult_mod_eq)
    qed
  qed
qed

lemma numberToString_inj:
  assumes "numberToString a = numberToString b"
  shows "a = b"
proof -
  have neg: "hd (numberToString i) = CHR ''-''" if "i < 0" for i
    using that by (simp add: numberToString_def)
  have pos: "hd (numberToString i) \<noteq> CHR ''-''" if "\<not> i < 0" for i
    using that natToString_hd [of "nat i"] by (simp add: numberToString_def)
  show ?thesis
  proof (cases "a < 0")
    case True
    with neg [of a] pos [of b] assms have b: "b < 0" by auto
    with True assms have "natToString (nat (- a)) = natToString (nat (- b))"
      by (simp add: numberToString_def)
    from natToString_inj [OF this] True b show ?thesis by simp
  next
    case False
    with neg [of b] pos [of a] assms have b: "\<not> b < 0" by auto
    with False assms have "natToString (nat a) = natToString (nat b)"
      by (simp add: numberToString_def)
    from natToString_inj [OF this] False b show ?thesis by simp
  qed
qed

lemma functionKey_name:
  assumes "functionKey m = functionKey n"
  shows "name m = name n"
proof -
  from assms have "numberToString (scriptId m) @ CHR '':'' # name m =
      numberToString (scriptId n) @ CHR '':'' # name n"
    by (simp add: functionKey_def)
  from split_at_colon [OF this numberToString_no_colon numberToString_no_colon]
  show ?thesis by simp
qed

lemma locationKey_lineNumber:
  assumes "locationKey m = locationKey n"
  shows "lineNumber m = lineNumber n"
proof -
  let ?c = "CHR '':''"
  from assms have "numberToString (scriptId m) @ ?c #
        (numberToString (lineNumber m) @ '':'' @ numberToString (columnNumber m) @ '':'' @ name m) =
      numberToString (scriptId n) @ ?c #
        (numberToString (lineNumber n) @ '':'' @ numberToString (columnNumber n) @ '':'' @ name n)"
    by (simp add: locationKey_def)
  from split_at_colon [OF this numberToString_no_colon numberToString_no_colon]
  have r1: "numberToString (lineNumber m) @ ?c # (numberToString (columnNumber m) @ '':'' @ name m) =
      numberToString (lineNumber n) @ ?c # (numberToString (columnNumber n) @ '':'' @ name n)"
    by simp
  from split_at_colon [OF r1 numberToString_no_colon numberToString_no_colon]
  have "numberToString (lineNumber m) = numberToString (lineNumber n)"
    by simp
  then show ?thesis by (rule numberToString_inj)
qed

subsection \<open>Facts about the function table\<close>

lemma elementAt_in_range:
  "1 \<le> i \<Longrightarrow> i \<le> length xs \<Longrightarrow> elementAt xs i = Some (xs ! (i - 1))"
  by (simp add: elementAt_def)

lemma getFunction_hit:
  assumes "functionIdMap st (functionKey n) = Some i" and "1 \<le> i" and "i \<le> length (functions' st)"
  shows "getFunction n st = Some (functions' st ! (i - 1), st)"
  using assms by (simp add: getFunction_def elementAt_def)

lemma getFunction_miss:
  assumes "functionIdMap st (functionKey n) = None"
    and "getIndexOrAdd (name n) (stringTable st) = (a, t1)"
    and "getIndexOrAdd (scriptName n) t1 = (b, t2)"
  shows "getFunction n st =
    Some (\<lparr>fn_id = length (functions' st) + 1, fn_name = a, fn_systemName = a,
            fn_filename = b, fn_startLine = 0\<rparr>,
          st\<lparr>functionIdMap := (functionIdMap st)(functionKey n \<mapsto> length (functions' st) + 1),
             stringTable := t2,
             functions' := functions' st @
               [\<lparr>fn_id = length (functions' st) + 1, fn_name = a, fn_systemName = a,
                 fn_filename = b, fn_startLine = 0\<rparr>]\<rparr>)"
  using assms by (simp add: getFunction_def Let_def)

lemma getFunction_locationIdMap:
  "getFunction n (st\<lparr>locationIdMap := m\<rparr>) =
     map_option (\<lambda>(f, s). (f, s\<lparr>locationIdMap := m\<rparr>)) (getFunction n st)"
  by (simp add: getFunction_def Let_def elementAt_def split: option.splits prod.splits)

lemma getFunction_frame:
  assumes "getFunction n st = Some (f, st1)"
  shows "samples st1 = samples st" and "locations st1 = locations st"
    and "locationIdMap st1 = locationIdMap st"
    and "\<exists>fs. functions' st1 = functions' st @ fs"
    and "\<exists>ys. strings (stringTable st1) = strings (stringTable st) @ ys"
proof -
  show "samples st1 = samples st" "locations st1 = locations st"
    "locationIdMap st1 = locationIdMap st" "\<exists>fs. functions' st1 = functions' st @ fs"
    using assms
    by (auto simp: getFunction_def Let_def elementAt_def split: option.splits prod.splits if_splits)
  show "\<exists>ys. strings (stringTable st1) = strings (stringTable st) @ ys"
  proof (cases "functionIdMap st (functionKey n)")
    case (Some i)
    with assms show ?thesis
      by (auto simp: getFunction_def elementAt_def split: if_splits)
  next
    case None
    obtain a t1 where a: "getIndexOrAdd (name n) (stringTable st) = (a, t1)"
      by (cases "getIndexOrAdd (name n) (stringTable st)")
    obtain b t2 where b: "getIndexOrAdd (scriptName n) t1 = (b, t2)"
      by (cases "getIndexOrAdd (scriptName n) t1")
    from getIndexOrAdd_extends [OF a] getIndexOrAdd_extends [OF b]
    have "\<exists>ys. strings t2 = strings (stringTable st) @ ys"
      by auto
    with assms getFunction_miss [OF None a b] show ?thesis
      by auto
  qed
qed

lemma getFunction_wf:
  assumes wf: "wf_functions st"
  shows "\<exists>f st1. getFunction n st = Some (f, st1) \<and> wf_functions st1 \<and>
           functionIdMap st1 (functionKey n) = Some (fn_id f) \<and>
           1 \<le> fn_id f \<and> fn_id f \<le> length (functions' st1) \<and>
           dom (functionIdMap st1) = insert (functionKey n) (dom (functionIdMap st)) \<and>
           length (functions' st1) =
             (if functionKey n \<in> dom (functionIdMap st) then length (functions' st)
              else length (functions' st) + 1)"
proof (cases "functionIdMap st (functionKey n)")
  case (Some i)
  with wf have range: "1 \<le> i" "i \<le> length (functions' st)"
    by (auto simp: wf_functions_def)
  then have "i - 1 < length (functions' st)" by simp
  with wf have "fn_id (functions' st ! (i - 1)) = i - 1 + 1"
    unfolding wf_functions_def by blast
  with range have id: "fn_id (functions' st ! (i - 1)) = i" by simp
  have "dom (functionIdMap st) = insert (functionKey n) (dom (functionIdMap st))"
    using Some by auto
  with getFunction_hit [OF Some range] wf Some range id show ?thesis
    by auto
next
  case None
  obtain a t1 where a: "getIndexOrAdd (name n) (stringTable st) = (a, t1)"
    by (cases "getIndexOrAdd (name n) (stringTable st)")
  obtain b t2 where b: "getIndexOrAdd (scriptName n) t1 = (b, t2)"
    by (cases "getIndexOrAdd (scriptName n) t1")
  let ?i = "length (functions' st) + 1"
  let ?f = "\<lparr>fn_id = ?i, fn_name = a, fn_systemName = a, fn_filename = b, fn_startLine = 0\<rparr>"
  let ?st1 = "st\<lparr>functionIdMap := (functionIdMap st)(functionKey n \<mapsto> ?i), stringTable := t2,
             functions' := functions' st @ [?f]\<rparr>"
  have res: "getFunction n st = Some (?f, ?st1)"
    by (rule getFunction_miss [OF None a b])
  from wf have wt: "wf_table (stringTable st)" by (simp add: wf_functions_def)
  from getIndexOrAdd_wf [OF wt a]
  have wt1: "wf_table t1" and a_lt: "a < length (strings t1)" by simp_all
  from getIndexOrAdd_wf [OF wt1 b]
  have wt2: "wf_table t2" and b_lt: "b < length (strings t2)" by simp_all
  from getIndexOrAdd_extends [OF a] obtain ys1 where ys1: "strings t1 = strings (stringTable st) @ ys1"
    by blast
  from getIndexOrAdd_extends [OF b] obtain ys2 where ys2: "strings t2 = strings t1 @ ys2"
    by blast
  have len1: "length (strings (stringTable st)) \<le> length (strings t2)"
    and len2: "a < length (strings t2)"
    using ys1 ys2 a_lt by simp_all
  have p1: "wf_table (stringTable ?st1)" using wt2 by simp
  have p2: "\<forall>k i. functionIdMap ?st1 k = Some i \<longrightarrow> 1 \<le> i \<and> i \<le> length (functions' ?st1)"
  proof (intro allI impI)
    fix k i
    assume "functionIdMap ?st1 k = Some i"
    then have "i = ?i \<or> functionIdMap st k = Some i"
      by (auto split: if_splits)
    with wf show "1 \<le> i \<and> i \<le> length (functions' ?st1)"
      by (fastforce simp: wf_functions_def)
  qed
  have p3: "\<forall>i < length (functions' ?st1). fn_id (functions' ?st1 ! i) = i + 1"
    using wf by (auto simp: wf_functions_def nth_append less_Suc_eq)
  have p4: "\<forall>f \<in> set (functions' ?st1).
        fn_name f < length (strings (stringTable ?st1)) \<and>
        fn_systemName f < length (strings (stringTable ?st1)) \<and>
        fn_filename f < length (strings (stringTable ?st1))"
    using wf len1 len2 b_lt by (fastforce simp: wf_functions_def)
  have wf1: "wf_functions ?st1"
    unfolding wf_functions_def using p1 p2 p3 p4 by blast
  have "functionKey n \<notin> dom (functionIdMap st)" using None by auto
  with res wf1 show ?thesis
    by (intro exI [of _ ?f] exI [of _ ?st1]) simp
qed

lemma getFunction_named:
  assumes wf: "wf_functions st" and nf: "namedFunctions W st"
    and gf: "getFunction n st = Some (f, stf)"
  shows "namedFunctions W stf" and "functionIdMap st \<subseteq>\<^sub>m functionIdMap stf"
    and "functionIdMap stf (functionKey n) = Some (fn_id f)"
proof -
  have "namedFunctions W stf \<and> functionIdMap st \<subseteq>\<^sub>m functionIdMap stf \<and>
    functionIdMap stf (functionKey n) = Some (fn_id f)"
  proof (cases "functionIdMap st (functionKey n)")
    case (Some i)
    with wf have range: "1 \<le> i" "i \<le> length (functions' st)"
      by (auto simp: wf_functions_def)
    then have "i - 1 < length (functions' st)" by simp
    with wf have "fn_id (functions' st ! (i - 1)) = i - 1 + 1"
      unfolding wf_functions_def by blast
    with range have id: "fn_id (functions' st ! (i - 1)) = i" by simp
    from getFunction_hit [OF Some range] gf have "f = functions' st ! (i - 1)" "stf = st"
      by simp_all
    with nf Some id show ?thesis by simp
  next
    case None
    obtain a t1 where a: "getIndexOrAdd (name n) (stringTable st) = (a, t1)"
      by (cases "getIndexOrAdd (name n) (stringTable st)")
    obtain b t2 where b: "getIndexOrAdd (scriptName n) t1 = (b, t2)"
      by (cases "getIndexOrAdd (scriptName n) t1")
    let ?i = "length (functions' st) + 1"
    let ?f = "\<lparr>fn_id = ?i, fn_name = a, fn_systemName = a, fn_filename = b, fn_startLine = 0\<rparr>"
    let ?st1 = "st\<lparr>functionIdMap := (functionIdMap st)(functionKey n \<mapsto> ?i), stringTable := t2,
               functions' := functions' st @ [?f]\<rparr>"
    from getFunction_miss [OF None a b] gf have f: "f = ?f" and stf: "stf = ?st1"
      by simp_all
    from wf have wt: "wf_table (stringTable st)" by (simp add: wf_functions_def)
    from getIndexOrAdd_wf [OF wt a]
    have wt1: "wf_table t1" and a_lt: "a < length (strings t1)" and a_nm: "strings t1 ! a = name n"
      by simp_all
    from getIndexOrAdd_extends [OF a] obtain ys1 where ys1: "strings t1 = strings (stringTable st) @ ys1"
      by blast
    from getIndexOrAdd_extends [OF b] obtain ys2 where ys2: "strings t2 = strings t1 @ ys2"
      by blast
    have a2: "strings t2 ! a = name n"
      using a_lt a_nm by (simp add: ys2 nth_append)
    have old: "strings t2 ! j = strings (stringTable st) ! j" if "j < length (strings (stringTable st))" for j
      using that by (simp add: ys2 ys1 nth_append)
    have "namedFunctions W ?st1"
      unfolding namedFunctions_def
    proof (intro ballI allI impI)
      fix m fi
      assume m: "m \<in> W" and fi: "functionIdMap ?st1 (functionKey m) = Some fi"
      show "strings (stringTable ?st1) ! fn_name (functions' ?st1 ! (fi - 1)) = name m"
      proof (cases "functionKey m = functionKey n")
        case True
        with fi have "fi = ?i" by simp
        moreover from True have "name m = name n" by (rule functionKey_name)
        ultimately show ?thesis using a2 by simp
      next
        case False
        with fi have o: "functionIdMap st (functionKey m) = Some fi" by simp
        with wf have range: "1 \<le> fi" "fi \<le> length (functions' st)"
          by (auto simp: wf_functions_def)
        then have lt: "fi - 1 < length (functions' st)" by simp
        then have "functions' st ! (fi - 1) \<in> set (functions' st)" by simp
        with wf have "fn_name (functions' st ! (fi - 1)) < length (strings (stringTable st))"
          unfolding wf_functions_def by blast
        from old [OF this] nf m o lt show ?thesis
          by (simp add: namedFunctions_def nth_append)
      qed
    qed
    moreover have "functionIdMap st \<subseteq>\<^sub>m functionIdMap ?st1"
      using None by (auto simp: map_le_def)
    ultimately show ?thesis by (simp add: f stf)
  qed
  then show "namedFunctions W stf" "functionIdMap st \<subseteq>\<^sub>m functionIdMap stf"
    "functionIdMap stf (functionKey n) = Some (fn_id f)"
    by simp_all
qed

subsection \<open>Facts about the location table\<close>

lemma getLocation_hit:
  assumes "locationIdMap st (locationKey n) = Some i" and "1 \<le> i" and "i \<le> length (locations st)"
  shows "getLocation n st = Some (locations st ! (i - 1), st)"
  using assms by (simp add: getLocation_def elementAt_def)

lemma getLocation_miss:
  assumes "locationIdMap st (locationKey n) = None" and "getFunction n st = Some (f, stf)"
  shows "getLocation n st =
    Some (\<lparr>loc_id = length (locations st) + 1,
            loc_line = [\<lparr>functionId = fn_id f, line = lineNumber n\<rparr>]\<rparr>,
          stf\<lparr>locationIdMap := (locationIdMap st)(locationKey n \<mapsto> length (locations st) + 1),
              locations := locations st @
                [\<lparr>loc_id = length (locations st) + 1,
                  loc_line = [\<lparr>functionId = fn_id f, line = lineNumber n\<rparr>]\<rparr>]\<rparr>)"
  using assms getFunction_frame(2) [OF assms(2)]
  by (simp add: getLocation_def getLine_def Let_def getFunction_locationIdMap)

lemma getLocation_None:
  assumes "locationIdMap st (locationKey n) = None" and "getFunction n st = None"
  shows "getLocation n st = None"
  using assms by (simp add: getLocation_def getLine_def Let_def getFunction_locationIdMap)

lemma getLocation_frame:
  assumes "getLocation n st = Some (loc, st1)"
  shows "samples st1 = samples st"
    and "\<exists>ls. locations st1 = locations st @ ls"
    and "\<exists>fs. functions' st1 = functions' st @ fs"
    and "\<exists>ys. strings (stringTable st1) = strings (stringTable st) @ ys"
proof -
  have "samples st1 = samples st \<and> (\<exists>ls. locations st1 = locations st @ ls) \<and>
    (\<exists>fs. functions' st1 = functions' st @ fs) \<and>
    (\<exists>ys. strings (stringTable st1) = strings (stringTable st) @ ys)"
  proof (cases "locationIdMap st (locationKey n)")
    case (Some i)
    with assms show ?thesis
      by (auto simp: getLocation_def elementAt_def split: if_splits)
  next
    case None
    show ?thesis
    proof (cases "getFunction n st")
      case None': None
      from getLocation_None [OF None None'] assms show ?thesis by simp
    next
      case (Some p)
      obtain f stf where p: "p = (f, stf)" by (cases p)
      from getLocation_miss [OF None Some [unfolded p]] assms
        getFunction_frame [OF Some [unfolded p]]
      show ?thesis by auto
    qed
  qed
  then show "samples st1 = samples st" "\<exists>ls. locations st1 = locations st @ ls"
    "\<exists>fs. functions' st1 = functions' st @ fs"
    "\<exists>ys. strings (stringTable st1) = strings (stringTable st) @ ys"
    by simp_all
qed

lemma wf_functions_cong:
  assumes "wf_functions st" and "stringTable st1 = stringTable st"
    and "functionIdMap st1 = functionIdMap st" and "functions' st1 = functions' st"
  shows "wf_functions st1"
  using assms by (simp add: wf_functions_def)

lemma getLocation_step:
  assumes wf: "wf_state st" and vis: "visited V st"
  shows "\<exists>loc st1. getLocation n st = Some (loc, st1) \<and> wf_state st1 \<and>
           visited (insert n V) st1 \<and>
           locationIdMap st1 (locationKey n) = Some (loc_id loc) \<and>
           locationIdMap st \<subseteq>\<^sub>m locationIdMap st1"
proof (cases "locationIdMap st (locationKey n)")
  case (Some i)
  from wf have wl: "wf_locations st" by (simp add: wf_state_def)
  with Some have range: "1 \<le> i" "i \<le> length (locations st)"
    by (auto simp: wf_locations_def)
  then have "i - 1 < length (locations st)" by simp
  with wl have "loc_id (locations st ! (i - 1)) = i - 1 + 1"
    unfolding wf_locations_def by blast
  with range have id: "loc_id (locations st ! (i - 1)) = i" by simp
  from Some have "locationKey n \<in> dom (locationIdMap st)" by auto
  with vis have inL: "locationKey n \<in> locationKey ` V" by (simp add: visited_def)
  then obtain m where m: "m \<in> V" "locationKey m = locationKey n"
    by auto
  from m(2) have "functionKey m = functionKey n" by (rule locationKey_functionKey)
  with m(1) have inF: "functionKey n \<in> functionKey ` V" by (metis imageI)
  from inL inF
  have "locationKey ` insert n V = locationKey ` V" "functionKey ` insert n V = functionKey ` V"
    by (simp_all add: insert_absorb)
  with vis have "visited (insert n V) st"
    by (simp add: visited_def)
  with getLocation_hit [OF Some range] wf Some id show ?thesis
    by auto
next
  case None
  from wf have wfn: "wf_functions st" and wl: "wf_locations st" and ws: "wf_samples st"
    by (simp_all add: wf_state_def)
  from getFunction_wf [OF wfn, of n] obtain f stf where
    gf: "getFunction n st = Some (f, stf)" and wfn1: "wf_functions stf"
    and fid: "1 \<le> fn_id f" "fn_id f \<le> length (functions' stf)"
    and fdom: "dom (functionIdMap stf) = insert (functionKey n) (dom (functionIdMap st))"
    and flen: "length (functions' stf) =
             (if functionKey n \<in> dom (functionIdMap st) then length (functions' st)
              else length (functions' st) + 1)"
    by blast
  note fr = getFunction_frame [OF gf]
  let ?i = "length (locations st) + 1"
  let ?L = "\<lparr>loc_id = ?i, loc_line = [\<lparr>functionId = fn_id f, line = lineNumber n\<rparr>]\<rparr>"
  let ?st1 = "stf\<lparr>locationIdMap := (locationIdMap st)(locationKey n \<mapsto> ?i),
              locations := locations st @ [?L]\<rparr>"
  have res: "getLocation n st = Some (?L, ?st1)"
    by (rule getLocation_miss [OF None gf])
  have flen_le: "length (functions' st) \<le> length (functions' stf)"
    using flen by (simp split: if_splits)
  have q1: "wf_functions ?st1"
    by (rule wf_functions_cong [OF wfn1]) simp_all
  have q2a: "\<forall>k i. locationIdMap ?st1 k = Some i \<longrightarrow> 1 \<le> i \<and> i \<le> length (locations ?st1)"
  proof (intro allI impI)
    fix k i
    assume "locationIdMap ?st1 k = Some i"
    then have "i = ?i \<or> locationIdMap st k = Some i"
      by (auto split: if_splits)
    with wl show "1 \<le> i \<and> i \<le> length (locations ?st1)"
      by (fastforce simp: wf_locations_def)
  qed
  have q2b: "\<forall>i < length (locations ?st1). loc_id (locations ?st1 ! i) = i + 1"
    using wl by (auto simp: wf_locations_def nth_append less_Suc_eq)
  have q2c: "\<forall>l \<in> set (locations ?st1). \<forall>ln \<in> set (loc_line l).
        1 \<le> functionId ln \<and> functionId ln \<le> length (functions' ?st1)"
    using wl fid flen_le by (fastforce simp: wf_locations_def)
  have q2d: "\<forall>k k' i. locationIdMap ?st1 k = Some i \<longrightarrow> locationIdMap ?st1 k' = Some i \<longrightarrow> k = k'"
  proof (intro allI impI)
    fix k k' i
    assume a: "locationIdMap ?st1 k = Some i" and b: "locationIdMap ?st1 k' = Some i"
    have old: "locationIdMap st x = Some j \<Longrightarrow> j \<noteq> ?i" for x j
      using wl by (fastforce simp: wf_locations_def)
    show "k = k'"
    proof (cases "k = locationKey n")
      case True
      with a have "i = ?i" by simp
      with b old [of k' i] show ?thesis using True by (auto split: if_splits)
    next
      case False
      with a have ka: "locationIdMap st k = Some i" by simp
      with old have "i \<noteq> ?i" by blast
      with b have "locationIdMap st k' = Some i" by (auto split: if_splits)
      with ka wl show ?thesis unfolding wf_locations_def by blast
    qed
  qed
  have q2: "wf_locations ?st1"
    unfolding wf_locations_def using q2a q2b q2c q2d by blast
  have q3: "wf_samples ?st1"
    using ws fr(1) by (fastforce simp: wf_samples_def)
  from None have "locationKey n \<notin> dom (locationIdMap st)" by auto
  with vis have key_new: "locationKey n \<notin> locationKey ` V"
    by (simp add: visited_def)
  have fin: "finite V" using vis by (simp add: visited_def)
  have c1: "card (locationKey ` insert n V) = length (locations ?st1)"
    using vis key_new fin by (simp add: visited_def)
  have c2: "card (functionKey ` insert n V) = length (functions' ?st1)"
    using vis fin flen by (simp add: visited_def card_insert_if)
  have q4: "visited (insert n V) ?st1"
    unfolding visited_def using fin c1 c2 fdom vis fr(3)
    by (simp add: visited_def)
  have q5: "locationIdMap st \<subseteq>\<^sub>m locationIdMap ?st1"
    using None by (auto simp: map_le_def)
  from res q1 q2 q3 q4 q5 show ?thesis
    by (intro exI [of _ ?L] exI [of _ ?st1]) (simp add: wf_state_def)
qed

lemma getLocation_described:
  assumes wf: "wf_state st" and nf: "namedFunctions W st" and dl: "describedLocations W st"
    and gl: "getLocation n st = Some (loc, st1)"
  shows "namedFunctions W st1 \<and> describedLocations W st1"
proof (cases "locationIdMap st (locationKey n)")
  case (Some i)
  from wf have wl: "wf_locations st" by (simp add: wf_state_def)
  with Some have range: "1 \<le> i" "i \<le> length (locations st)"
    by (auto simp: wf_locations_def)
  from getLocation_hit [OF Some range] gl have "st1 = st" by simp
  with nf dl show ?thesis by simp
next
  case None
  from wf have wfn: "wf_functions st" and wl: "wf_locations st"
    by (simp_all add: wf_state_def)
  from getFunction_wf [OF wfn, of n] obtain f stf where
    gf: "getFunction n st = Some (f, stf)"
    by blast
  note fr = getFunction_frame [OF gf]
  note nm = getFunction_named [OF wfn nf gf]
  let ?i = "length (locations st) + 1"
  let ?L = "\<lparr>loc_id = ?i, loc_line = [\<lparr>functionId = fn_id f, line = lineNumber n\<rparr>]\<rparr>"
  let ?st1 = "stf\<lparr>locationIdMap := (locationIdMap st)(locationKey n \<mapsto> ?i),
              locations := locations st @ [?L]\<rparr>"
  from getLocation_miss [OF None gf] gl have st1: "st1 = ?st1" by simp
  have n1: "namedFunctions W ?st1"
    using nm(1) by (simp add: namedFunctions_def)
  have d1: "describedLocations W ?st1"
    unfolding describedLocations_def
  proof (intro ballI allI impI)
    fix m i
    assume m: "m \<in> W" and i: "locationIdMap ?st1 (locationKey m) = Some i"
    show "\<exists>fi. functionIdMap ?st1 (functionKey m) = Some fi \<and>
        loc_line (locations ?st1 ! (i - 1)) = [\<lparr>functionId = fi, line = lineNumber m\<rparr>]"
    proof (cases "locationKey m = locationKey n")
      case True
      with i have "i = ?i" by simp
      moreover from True have "lineNumber m = lineNumber n" by (rule locationKey_lineNumber)
      moreover from True have "functionKey m = functionKey n" by (rule locationKey_functionKey)
      ultimately show ?thesis using nm(3) by simp
    next
      case False
      with i have o: "locationIdMap st (locationKey m) = Some i" by simp
      with wl have range: "1 \<le> i" "i \<le> length (locations st)"
        by (auto simp: wf_locations_def)
      then have lt: "i - 1 < length (locations st)" by simp
      from dl m o obtain fi where fi: "functionIdMap st (functionKey m) = Some fi"
        and ln: "loc_line (locations st ! (i - 1)) = [\<lparr>functionId = fi, line = lineNumber m\<rparr>]"
        unfolding describedLocations_def by blast
      from nm(2) fi have "functionIdMap stf (functionKey m) = Some fi"
        by (auto simp: map_le_def dom_def)
      with ln lt show ?thesis by (simp add: nth_append)
    qed
  qed
  from n1 d1 show ?thesis by (simp add: st1)
qed

lemma indexOf_less: "k \<in> set xs \<Longrightarrow> indexOf xs k < length xs \<and> xs ! indexOf xs k = k"
  by (induction xs) auto

lemma keysInOrder_Nil: "keysInOrder [] = []"
  by (simp add: keysInOrder_def)

lemma set_keysInOrder: "set (keysInOrder xs) = set xs"
  by (simp add: keysInOrder_def)

lemma distinct_keysInOrder: "distinct (keysInOrder xs)"
  by (simp add: keysInOrder_def)

lemma keysInOrder_snoc:
  "keysInOrder (xs @ [x]) = (if x \<in> set xs then keysInOrder xs else keysInOrder xs @ [x])"
  by (simp add: keysInOrder_def)

lemma allocated_samples: "allocated ks (st\<lparr>samples := x\<rparr>) = allocated ks st"
  by (simp add: allocated_def)

lemma allocated_initial: "allocated [] (initialState table)"
  by (simp add: allocated_def initialState_def)

lemma allocated_lookup:
  assumes al: "allocated ks st" and k: "k \<in> set ks"
  shows "locationIdMap st k = Some (indexOf ks k + 1)"
proof -
  from indexOf_less [OF k] have "1 \<le> indexOf ks k + 1 \<and> indexOf ks k + 1 \<le> length ks \<and>
      ks ! (indexOf ks k + 1 - 1) = k"
    by simp
  with al show ?thesis unfolding allocated_def by blast
qed

lemma getLocation_allocated:
  assumes al: "allocated (keysInOrder xs) st" and gl: "getLocation n st = Some (loc, st1)"
  shows "allocated (keysInOrder (xs @ [locationKey n])) st1"
proof (cases "locationIdMap st (locationKey n)")
  case (Some i)
  let ?ks = "keysInOrder xs"
  from al Some have range: "1 \<le> i" "i \<le> length ?ks" and at: "?ks ! (i - 1) = locationKey n"
    unfolding allocated_def by blast+
  from al range have r2: "i \<le> length (locations st)" by (simp add: allocated_def)
  from range have "i - 1 < length ?ks" by simp
  then have "?ks ! (i - 1) \<in> set ?ks" by (rule nth_mem)
  with at have "locationKey n \<in> set xs" by (simp add: set_keysInOrder)
  then have "keysInOrder (xs @ [locationKey n]) = ?ks" by (simp add: keysInOrder_snoc)
  moreover from getLocation_hit [OF Some range(1) r2] gl have "st1 = st" by simp
  ultimately show ?thesis using al by simp
next
  case None
  let ?ks = "keysInOrder xs"
  let ?k = "locationKey n"
  from al have dist: "distinct ?ks" and len: "length (locations st) = length ?ks"
    and iff: "\<And>k i. locationIdMap st k = Some i \<longleftrightarrow> 1 \<le> i \<and> i \<le> length ?ks \<and> ?ks ! (i - 1) = k"
    unfolding allocated_def by blast+
  have fresh: "?k \<notin> set ?ks"
  proof
    assume "?k \<in> set ?ks"
    from allocated_lookup [OF al this] None show False by simp
  qed
  then have ks': "keysInOrder (xs @ [?k]) = ?ks @ [?k]"
    by (simp add: keysInOrder_snoc set_keysInOrder)
  obtain f stf where gf: "getFunction n st = Some (f, stf)"
  proof (cases "getFunction n st")
    case None': None
    from getLocation_None [OF None None'] gl show ?thesis by simp
  next
    case (Some p)
    then show ?thesis using that by (cases p) simp
  qed
  let ?i = "length (locations st) + 1"
  let ?L = "\<lparr>loc_id = ?i, loc_line = [\<lparr>functionId = fn_id f, line = lineNumber n\<rparr>]\<rparr>"
  let ?st1 = "stf\<lparr>locationIdMap := (locationIdMap st)(?k \<mapsto> ?i),
              locations := locations st @ [?L]\<rparr>"
  from getLocation_miss [OF None gf] gl have st1: "st1 = ?st1" by simp
  have "allocated (?ks @ [?k]) ?st1"
    unfolding allocated_def
  proof (intro conjI allI)
    show "distinct (?ks @ [?k])" using dist fresh by simp
    show "length (locations ?st1) = length (?ks @ [?k])" using len by simp
    fix k i
    show "locationIdMap ?st1 k = Some i \<longleftrightarrow>
        1 \<le> i \<and> i \<le> length (?ks @ [?k]) \<and> (?ks @ [?k]) ! (i - 1) = k"
    proof (cases "i = length ?ks + 1")
      case True
      have "locationIdMap st k \<noteq> Some i" if "k \<noteq> ?k"
        using iff [of k i] True by simp
      with True len show ?thesis by (auto simp: nth_append)
    next
      case False
      show ?thesis
      proof (cases "k = ?k")
        case k: True
        have "\<not> (1 \<le> i \<and> i \<le> length ?ks \<and> ?ks ! (i - 1) = ?k)"
        proof
          assume a: "1 \<le> i \<and> i \<le> length ?ks \<and> ?ks ! (i - 1) = ?k"
          then have "i - 1 < length ?ks" by arith
          then have "?ks ! (i - 1) \<in> set ?ks" by (rule nth_mem)
          with a fresh show False by simp
        qed
        with False k len show ?thesis by (auto simp: nth_append)
      next
        case k: False
        with False iff [of k i] show ?thesis by (auto simp: nth_append)
      qed
    qed
  qed
  with ks' st1 show ?thesis by simp
qed

subsection \<open>Facts about the loop\<close>

lemma serialize_loop_Nil: "serialize_loop app [] st = Some st"
  by (subst serialize_loop.simps) simp

lemma serialize_loop_snoc:
  "serialize_loop app (es @ [(n, stk)]) st =
     (case getLocation n st of
        None \<Rightarrow> None
      | Some (loc, st1) \<Rightarrow>
          serialize_loop app (es @ map (\<lambda>c. (c, loc_id loc # stk)) (children n))
            (st1\<lparr>samples := app (n, loc_id loc # stk) (samples st1)\<rparr>))"
  by (subst serialize_loop.simps) (simp add: Let_def split: option.splits)

lemma entriesSize_append: "entriesSize (es @ es') = entriesSize es + entriesSize es'"
  by (simp add: entriesSize_def)

lemma entriesSize_children:
  "entriesSize (map (\<lambda>c. (c, x)) (children n)) < entriesSize [(n, y)]"
  using children_size_less [of n] by (simp add: entriesSize_def comp_def)

text \<open>The entry pushed last is serialized with its whole subtree before the entries
  below it are looked at.\<close>

lemma serialize_loop_append:
  "serialize_loop app (es @ es') st = Option.bind (serialize_loop app es' st) (serialize_loop app es)"
proof (induction "entriesSize es'" arbitrary: es' st rule: less_induct)
  case less
  show ?case
  proof (cases es' rule: rev_cases)
    case Nil
    then show ?thesis by (simp add: serialize_loop_Nil)
  next
    case (snoc es0 e)
    obtain n stk where e: "e = (n, stk)" by (cases e)
    show ?thesis
    proof (cases "getLocation n st")
      case None
      then show ?thesis
        using serialize_loop_snoc [of app "es @ es0" n stk st] serialize_loop_snoc [of app es0 n stk st]
        by (simp add: snoc e)
    next
      case (Some p)
      obtain loc st1 where p: "p = (loc, st1)" by (cases p)
      let ?ch = "map (\<lambda>c. (c, loc_id loc # stk)) (children n)"
      let ?st2 = "st1\<lparr>samples := app (n, loc_id loc # stk) (samples st1)\<rparr>"
      have "entriesSize (es0 @ ?ch) < entriesSize es'"
        using entriesSize_children [of "loc_id loc # stk" n stk]
        by (simp add: snoc e entriesSize_append)
      from less [OF this]
      have "serialize_loop app (es @ es0 @ ?ch) ?st2 =
        Option.bind (serialize_loop app (es0 @ ?ch) ?st2) (serialize_loop app es)" .
      then show ?thesis
        using serialize_loop_snoc [of app "es @ es0" n stk st] serialize_loop_snoc [of app es0 n stk st]
        by (simp add: snoc e Some p)
    qed
  qed
qed

lemma serialize_loop_grows:
  assumes app: "\<And>e ss. \<exists>new. app e ss = ss @ new"
  shows "serialize_loop app es st = Some st' \<Longrightarrow>
    (\<exists>ss. samples st' = samples st @ ss) \<and> (\<exists>ls. locations st' = locations st @ ls) \<and>
    (\<exists>fs. functions' st' = functions' st @ fs) \<and>
    (\<exists>ys. strings (stringTable st') = strings (stringTable st) @ ys)"
proof (induction "entriesSize es" arbitrary: es st rule: less_induct)
  case less
  show ?case
  proof (cases es rule: rev_cases)
    case Nil
    with less.prems show ?thesis by (simp add: serialize_loop_Nil)
  next
    case (snoc es0 e)
    obtain n stk where e: "e = (n, stk)" by (cases e)
    from less.prems obtain loc st1 where gl: "getLocation n st = Some (loc, st1)"
      by (auto simp: snoc e serialize_loop_snoc split: option.splits)
    let ?ch = "map (\<lambda>c. (c, loc_id loc # stk)) (children n)"
    let ?st2 = "st1\<lparr>samples := app (n, loc_id loc # stk) (samples st1)\<rparr>"
    from less.prems gl have run: "serialize_loop app (es0 @ ?ch) ?st2 = Some st'"
      by (simp add: snoc e serialize_loop_snoc)
    have "entriesSize (es0 @ ?ch) < entriesSize es"
      using entriesSize_children [of "loc_id loc # stk" n stk]
      by (simp add: snoc e entriesSize_append)
    from less.hyps [OF this run]
    have ih: "(\<exists>ss. samples st' = samples ?st2 @ ss)" "(\<exists>ls. locations st' = locations ?st2 @ ls)"
      "(\<exists>fs. functions' st' = functions' ?st2 @ fs)"
      "(\<exists>ys. strings (stringTable st') = strings (stringTable ?st2) @ ys)"
      by blast+
    from app obtain new where new: "app (n, loc_id loc # stk) (samples st1) = samples st1 @ new"
      by blast
    note fr = getLocation_frame [OF gl]
    have s: "\<exists>ss. samples st' = samples st @ ss"
      using ih(1) new fr(1) by auto
    have l: "\<exists>ls. locations st' = locations st @ ls"
      using ih(2) fr(2) by auto
    have f: "\<exists>fs. functions' st' = functions' st @ fs"
      using ih(3) fr(3) by auto
    have y: "\<exists>ys. strings (stringTable st') = strings (stringTable st) @ ys"
      using ih(4) fr(4) by auto
    from s l f y show ?thesis by blast
  qed
qed

subsection \<open>Facts about the visiting order\<close>

lemma treeOrder_unfold:
  "treeOrder n anc = (n, anc) # concat (map (\<lambda>c. treeOrder c (n # anc)) (rev (children n)))"
  by (cases n) simp

lemma forestOrder_Nil: "forestOrder [] = []"
  by (simp add: forestOrder_def)

lemma forestOrder_snoc:
  "forestOrder (ges @ [(n, anc)]) =
     (n, anc) # forestOrder (ges @ map (\<lambda>c. (c, n # anc)) (children n))"
  by (simp add: forestOrder_def treeOrder_unfold [of n anc] rev_map comp_def)

lemma lid_mono:
  assumes "locationIdMap st \<subseteq>\<^sub>m locationIdMap st'" and "locationKey a \<in> dom (locationIdMap st)"
  shows "lid st' a = lid st a"
  using assms by (auto simp: lid_def map_le_def dom_def)

lemma lid_map_mono:
  assumes "locationIdMap st \<subseteq>\<^sub>m locationIdMap st'"
    and "\<forall>a \<in> set anc. locationKey a \<in> dom (locationIdMap st)"
  shows "map (lid st') anc = map (lid st) anc"
  using assms by (simp add: lid_mono)

lemma wf_state_samples:
  assumes "wf_state st" and "\<forall>s \<in> set new. \<forall>i \<in> set (locationId s). 1 \<le> i \<and> i \<le> length (locations st)"
  shows "wf_state (st\<lparr>samples := samples st @ new\<rparr>)"
  using assms by (auto simp: wf_state_def wf_functions_def wf_locations_def wf_samples_def)

lemma visited_samples: "visited V (st\<lparr>samples := x\<rparr>) = visited V st"
  by (simp add: visited_def)

lemma lid_in_range:
  assumes "wf_state st" and "locationKey a \<in> dom (locationIdMap st)"
  shows "1 \<le> lid st a \<and> lid st a \<le> length (locations st)"
  using assms by (auto simp: wf_state_def wf_locations_def lid_def)

lemma serialize_loop_char:
  assumes app: "\<And>e ss. app e ss = ss @ new e"
    and stk: "\<And>e s. s \<in> set (new e) \<Longrightarrow> locationId s = snd e"
  shows "wf_state st \<Longrightarrow> visited V st \<Longrightarrow>
    \<forall>g \<in> set ges. \<forall>a \<in> set (snd g). locationKey a \<in> dom (locationIdMap st) \<Longrightarrow>
    namedFunctions W st \<Longrightarrow> describedLocations W st \<Longrightarrow>
    allocated (keysInOrder (map locationKey vs)) st \<Longrightarrow>
    \<exists>st'. serialize_loop app (map (\<lambda>g. (fst g, map (lid st) (snd g))) ges) st = Some st' \<and>
      wf_state st' \<and> visited (V \<union> fst ` set (forestOrder ges)) st' \<and>
      locationIdMap st \<subseteq>\<^sub>m locationIdMap st' \<and>
      samples st' = samples st @
        concat (map (\<lambda>g. new (fst g, map (lid st') (fst g # snd g))) (forestOrder ges)) \<and>
      (\<exists>ys. strings (stringTable st') = strings (stringTable st) @ ys) \<and>
      namedFunctions W st' \<and> describedLocations W st' \<and>
      allocated (keysInOrder (map locationKey (vs @ map fst (forestOrder ges)))) st'"
proof (induction "entriesSize ges" arbitrary: ges st V vs rule: less_induct)
  case less
  show ?case
  proof (cases ges rule: rev_cases)
    case Nil
    with less.prems show ?thesis
      by (simp add: serialize_loop_Nil forestOrder_Nil)
  next
    case (snoc ges0 g)
    obtain n anc where g: "g = (n, anc)" by (cases g)
    from less.prems(3) have anc_dom: "\<forall>a \<in> set anc. locationKey a \<in> dom (locationIdMap st)"
      and ges0_dom: "\<forall>g \<in> set ges0. \<forall>a \<in> set (snd g). locationKey a \<in> dom (locationIdMap st)"
      by (simp_all add: snoc g)
    from getLocation_step [OF less.prems(1,2), of n] obtain loc st1 where
      gl: "getLocation n st = Some (loc, st1)" and wf1: "wf_state st1"
      and vis1: "visited (insert n V) st1"
      and key1: "locationIdMap st1 (locationKey n) = Some (loc_id loc)"
      and le1: "locationIdMap st \<subseteq>\<^sub>m locationIdMap st1"
      by blast
    note fr = getLocation_frame [OF gl]
    from getLocation_described [OF less.prems(1,4,5) gl]
    have nd1: "namedFunctions W st1" "describedLocations W st1"
      by simp_all
    from getLocation_allocated [OF less.prems(6) gl]
    have al1: "allocated (keysInOrder (map locationKey (vs @ [n]))) st1"
      by simp
    let ?stack = "loc_id loc # map (lid st) anc"
    let ?st2 = "st1\<lparr>samples := app (n, ?stack) (samples st1)\<rparr>"
    let ?ges' = "ges0 @ map (\<lambda>c. (c, n # anc)) (children n)"
    have dom1: "dom (locationIdMap st) \<subseteq> dom (locationIdMap st1)"
      using le1 by (rule map_le_implies_dom_le)
    have n_dom1: "locationKey n \<in> dom (locationIdMap st1)"
      using key1 by auto
    have stack: "?stack = map (lid st1) (n # anc)"
      using key1 lid_map_mono [OF le1 anc_dom] by (simp add: lid_def)
    have st2: "?st2 = st1\<lparr>samples := samples st1 @ new (n, ?stack)\<rparr>"
      by (simp add: app)
    have "\<forall>s \<in> set (new (n, ?stack)). \<forall>i \<in> set (locationId s). 1 \<le> i \<and> i \<le> length (locations st1)"
    proof (intro ballI)
      fix s i
      assume "s \<in> set (new (n, ?stack))" and i: "i \<in> set (locationId s)"
      then have "locationId s = map (lid st1) (n # anc)"
        using stk [of s "(n, ?stack)"] stack by simp
      with i obtain a where "a \<in> set (n # anc)" "i = lid st1 a" by auto
      moreover from this anc_dom dom1 n_dom1 have "locationKey a \<in> dom (locationIdMap st1)"
        by auto
      ultimately show "1 \<le> i \<and> i \<le> length (locations st1)"
        using lid_in_range [OF wf1] by simp
    qed
    with wf1 have wf2: "wf_state ?st2"
      unfolding st2 by (rule wf_state_samples)
    have vis2: "visited (insert n V) ?st2"
      using vis1 by (simp add: visited_samples)
    have nd2: "namedFunctions W ?st2" "describedLocations W ?st2"
      using nd1 by (simp_all add: namedFunctions_def describedLocations_def)
    have al2: "allocated (keysInOrder (map locationKey (vs @ [n]))) ?st2"
      using al1 by (simp only: allocated_samples)
    have lm2: "locationIdMap ?st2 = locationIdMap st1" by simp
    have anc1: "\<forall>a \<in> set (n # anc). locationKey a \<in> dom (locationIdMap st1)"
    proof
      fix a
      assume "a \<in> set (n # anc)"
      then have "a = n \<or> a \<in> set anc" by simp
      with anc_dom dom1 n_dom1 show "locationKey a \<in> dom (locationIdMap st1)" by blast
    qed
    have dom2: "\<forall>g \<in> set ?ges'. \<forall>a \<in> set (snd g). locationKey a \<in> dom (locationIdMap ?st2)"
    proof (intro ballI)
      fix g a
      assume "g \<in> set ?ges'" and a: "a \<in> set (snd g)"
      then consider (old) "g \<in> set ges0" | (child) "snd g = n # anc" by auto
      then have "locationKey a \<in> dom (locationIdMap st1)"
      proof cases
        case old
        with a ges0_dom have "locationKey a \<in> dom (locationIdMap st)" by simp
        with dom1 show ?thesis by (rule_tac subsetD)
      next
        case child
        with a have "a \<in> set (n # anc)" by simp
        with anc1 show ?thesis by (rule_tac bspec)
      qed
      then show "locationKey a \<in> dom (locationIdMap ?st2)" by simp
    qed
    have lid2: "lid ?st2 = lid st1"
      by (simp add: lid_def fun_eq_iff)
    have entries: "map (\<lambda>g. (fst g, map (lid st) (snd g))) ges0 @
        map (\<lambda>c. (c, ?stack)) (children n) =
        map (\<lambda>g. (fst g, map (lid ?st2) (snd g))) ?ges'"
    proof -
      have "lid st a = lid st1 a" if "g \<in> set ges0" and "a \<in> set (snd g)" for g a
      proof -
        from that ges0_dom have "locationKey a \<in> dom (locationIdMap st)" by blast
        from lid_mono [OF le1 this] show ?thesis by simp
      qed
      then have e1: "map (\<lambda>g. (fst g, map (lid st) (snd g))) ges0 =
          map (\<lambda>g. (fst g, map (lid st1) (snd g))) ges0"
        by simp
      have e2: "map (\<lambda>c. (c, ?stack)) (children n) =
          map (\<lambda>g. (fst g, map (lid st1) (snd g))) (map (\<lambda>c. (c, n # anc)) (children n))"
        using stack by (simp add: comp_def)
      show ?thesis
        by (simp only: lid2 map_append e1 e2)
    qed
    have "entriesSize ?ges' < entriesSize ges"
      using entriesSize_children [of "n # anc" n anc]
      by (simp add: snoc g entriesSize_append)
    from less.hyps [OF this wf2 vis2 dom2 nd2 al2] obtain st' where
      run: "serialize_loop app (map (\<lambda>g. (fst g, map (lid ?st2) (snd g))) ?ges') ?st2 = Some st'"
      and wf': "wf_state st'"
      and vis': "visited (insert n V \<union> fst ` set (forestOrder ?ges')) st'"
      and le': "locationIdMap ?st2 \<subseteq>\<^sub>m locationIdMap st'"
      and sam': "samples st' = samples ?st2 @
        concat (map (\<lambda>g. new (fst g, map (lid st') (fst g # snd g))) (forestOrder ?ges'))"
      and str': "\<exists>ys. strings (stringTable st') = strings (stringTable ?st2) @ ys"
      and nd': "namedFunctions W st'" "describedLocations W st'"
      and al': "allocated (keysInOrder (map locationKey ((vs @ [n]) @ map fst (forestOrder ?ges')))) st'"
      by blast
    have r7: "allocated (keysInOrder (map locationKey (vs @ map fst (forestOrder ges)))) st'"
      using al' by (simp add: snoc g forestOrder_snoc)
    have r1: "serialize_loop app (map (\<lambda>g. (fst g, map (lid st) (snd g))) ges) st = Some st'"
    proof -
      have "serialize_loop app (map (\<lambda>g. (fst g, map (lid st) (snd g))) ges) st =
          serialize_loop app (map (\<lambda>g. (fst g, map (lid st) (snd g))) ges0 @
            map (\<lambda>c. (c, ?stack)) (children n)) ?st2"
        using gl by (simp add: snoc g serialize_loop_snoc)
      also have "\<dots> = Some st'"
        unfolding entries by (rule run)
      finally show ?thesis .
    qed
    have r3: "visited (V \<union> fst ` set (forestOrder ges)) st'"
      using vis' by (simp add: snoc g forestOrder_snoc)
    from le' have le1': "locationIdMap st1 \<subseteq>\<^sub>m locationIdMap st'" by simp
    have r4: "locationIdMap st \<subseteq>\<^sub>m locationIdMap st'"
      using le1 le1' by (rule map_le_trans)
    from lid_map_mono [OF le1' anc1] stack
    have stack': "?stack = map (lid st') (n # anc)" by simp
    have r5: "samples st' = samples st @
        concat (map (\<lambda>g. new (fst g, map (lid st') (fst g # snd g))) (forestOrder ges))"
      using sam' fr(1) stack' by (simp add: snoc g forestOrder_snoc app)
    have r6: "\<exists>ys. strings (stringTable st') = strings (stringTable st) @ ys"
      using str' fr(4) by auto
    from r1 wf' r3 r4 r5 r6 nd' r7 show ?thesis by blast
  qed
qed

subsection \<open>Facts about the callbacks and the value types\<close>

lemma appendTimeEntryToSamples_appends:
  "appendTimeEntryToSamples i e ss = ss @ timeSamples i e"
  by (simp add: appendTimeEntryToSamples_def timeSamples_def)

lemma timeSamples_stack: "s \<in> set (timeSamples i e) \<Longrightarrow> locationId s = snd e"
  by (auto simp: timeSamples_def split: if_splits)

lemma appendHeapEntryToSamples_appends:
  "appendHeapEntryToSamples e ss = ss @ heapSamples e"
  by (simp add: appendHeapEntryToSamples_def heapSamples_def)

lemma heapSamples_stack: "s \<in> set (heapSamples e) \<Longrightarrow> locationId s = snd e"
  by (auto simp: heapSamples_def)

lemma two_strings_wf:
  assumes "wf_table t" and "getIndexOrAdd a t = (i, t1)" and "getIndexOrAdd b t1 = (j, t2)"
  shows "wf_table t2 \<and> i < length (strings t2) \<and> j < length (strings t2) \<and>
    (\<exists>ys. strings t2 = strings t @ ys)"
proof -
  from getIndexOrAdd_wf [OF assms(1,2)] have w1: "wf_table t1" and i: "i < length (strings t1)"
    by simp_all
  from getIndexOrAdd_wf [OF w1 assms(3)] have w2: "wf_table t2" and j: "j < length (strings t2)"
    by simp_all
  from getIndexOrAdd_extends [OF assms(2)] obtain ys1 where y1: "strings t1 = strings t @ ys1"
    by blast
  from getIndexOrAdd_extends [OF assms(3)] obtain ys2 where y2: "strings t2 = strings t1 @ ys2"
    by blast
  from i y1 y2 have "i < length (strings t2)" by simp
  moreover from y1 y2 have "\<exists>ys. strings t2 = strings t @ ys" by simp
  ultimately show ?thesis using w2 j by simp
qed

lemma createSampleValueType_wf:
  assumes "wf_table t" and "createSampleValueType t = (v, t')"
  shows "wf_table t' \<and> vt_type v < length (strings t') \<and> vt_unit v < length (strings t') \<and>
    (\<exists>ys. strings t' = strings t @ ys)"
proof -
  obtain i t1 where a: "getIndexOrAdd ''samples'' t = (i, t1)"
    by (cases "getIndexOrAdd ''samples'' t")
  obtain j t2 where b: "getIndexOrAdd ''count'' t1 = (j, t2)"
    by (cases "getIndexOrAdd ''count'' t1")
  from assms(2) a b have "v = \<lparr>vt_type = i, vt_unit = j\<rparr>" "t' = t2"
    by (simp_all add: createSampleValueType_def)
  with two_strings_wf [OF assms(1) a b] show ?thesis by simp
qed

lemma createTimeValueType_wf:
  assumes "wf_table t" and "createTimeValueType t = (v, t')"
  shows "wf_table t' \<and> vt_type v < length (strings t') \<and> vt_unit v < length (strings t') \<and>
    (\<exists>ys. strings t' = strings t @ ys)"
proof -
  obtain i t1 where a: "getIndexOrAdd ''time'' t = (i, t1)"
    by (cases "getIndexOrAdd ''time'' t")
  obtain j t2 where b: "getIndexOrAdd ''microseconds'' t1 = (j, t2)"
    by (cases "getIndexOrAdd ''microseconds'' t1")
  from assms(2) a b have "v = \<lparr>vt_type = i, vt_unit = j\<rparr>" "t' = t2"
    by (simp_all add: createTimeValueType_def)
  with two_strings_wf [OF assms(1) a b] show ?thesis by simp
qed

lemma createAllocationValueType_wf:
  assumes "wf_table t" and "createAllocationValueType t = (v, t')"
  shows "wf_table t' \<and> vt_type v < length (strings t') \<and> vt_unit v < length (strings t') \<and>
    (\<exists>ys. strings t' = strings t @ ys)"
proof -
  obtain i t1 where a: "getIndexOrAdd ''space'' t = (i, t1)"
    by (cases "getIndexOrAdd ''space'' t")
  obtain j t2 where b: "getIndexOrAdd ''bytes'' t1 = (j, t2)"
    by (cases "getIndexOrAdd ''bytes'' t1")
  from assms(2) a b have "v = \<lparr>vt_type = i, vt_unit = j\<rparr>" "t' = t2"
    by (simp_all add: createAllocationValueType_def)
  with two_strings_wf [OF assms(1) a b] show ?thesis by simp
qed

subsection \<open>Facts about a whole run\<close>

lemma wf_state_initial: "wf_table table \<Longrightarrow> wf_state (initialState table)"
  by (simp add: wf_state_def wf_functions_def wf_locations_def wf_samples_def initialState_def)

lemma visited_initial: "visited {} (initialState table)"
  by (simp add: visited_def initialState_def)

lemma serialize_run_char:
  fixes root :: "'a ProfileNode"
  assumes app: "\<And>e ss. app e ss = ss @ new e"
    and stk: "\<And>e s. s \<in> set (new e) \<Longrightarrow> locationId s = snd e"
    and wt: "wf_table table"
  shows "\<exists>st. serialize_run root app table = Some st \<and> wf_state st \<and>
      visited (fst ` set (visitOrder root)) st \<and>
      samples st = concat (map (\<lambda>g. new (fst g, map (lid st) (fst g # snd g))) (visitOrder root)) \<and>
      (\<exists>ys. strings (stringTable st) = strings table @ ys) \<and>
      namedFunctions W st \<and> describedLocations W st \<and> allocated (locationKeys root) st"
proof -
  let ?ges = "map (\<lambda>c. (c, [] :: 'a ProfileNode list)) (children root)"
  have "\<forall>g \<in> set ?ges. \<forall>a \<in> set (snd g). locationKey a \<in> dom (locationIdMap (initialState table))"
    by auto
  moreover have "namedFunctions W (initialState table)" "describedLocations W (initialState table)"
    by (simp_all add: namedFunctions_def describedLocations_def initialState_def)
  moreover have "allocated (keysInOrder (map locationKey ([] :: 'a ProfileNode list))) (initialState table)"
    by (simp add: keysInOrder_Nil allocated_initial)
  ultimately obtain st' where
    run: "serialize_loop app (map (\<lambda>g. (fst g, map (lid (initialState table)) (snd g))) ?ges)
      (initialState table) = Some st'"
    and rest: "wf_state st'" "visited ({} \<union> fst ` set (forestOrder ?ges)) st'"
      "samples st' = samples (initialState table) @
        concat (map (\<lambda>g. new (fst g, map (lid st') (fst g # snd g))) (forestOrder ?ges))"
      "\<exists>ys. strings (stringTable st') = strings (stringTable (initialState table)) @ ys"
      "namedFunctions W st'" "describedLocations W st'"
    and al: "allocated (keysInOrder (map locationKey ([] @ map fst (forestOrder ?ges)))) st'"
    using serialize_loop_char [of app new "initialState table" "{}" ?ges W "[]",
        OF app stk wf_state_initial [OF wt] visited_initial]
    by blast
  have al': "allocated (locationKeys root) st'"
    using al by (simp add: locationKeys_def visitOrder_def comp_def)
  have eq: "map (\<lambda>g. (fst g, map (lid (initialState table)) (snd g))) ?ges =
      map (\<lambda>n. (n, [])) (children root)"
    by (simp add: comp_def)
  from run have "serialize_run root app table = Some st'"
    unfolding serialize_run_def eq .
  with rest al' show ?thesis
    by (auto simp: visitOrder_def initialState_def)
qed

lemma serializeTimeProfile_result:
  obtains sv tv t2 st where
    "serializeTimeProfile prof i =
       Some \<lparr>p_sampleType = [sv, tv], p_sample = samples st, p_location = locations st,
             p_function = functions' st, p_stringTable = strings (stringTable st),
             p_timeNanos = startTime prof * 1000 * 1000,
             p_durationNanos = (endTime prof - startTime prof) * 1000 * 1000,
             p_periodType = tv, p_period = i\<rparr>"
    and "serialize_run (topDownRoot prof) (appendTimeEntryToSamples i) t2 = Some st"
    and "wf_state st" and "visited (fst ` set (visitOrder (topDownRoot prof))) st"
    and "samples st = concat (map (\<lambda>g. timeSamples i (fst g, map (lid st) (fst g # snd g)))
           (visitOrder (topDownRoot prof)))"
    and "strings (stringTable st) ! 0 = []"
    and "vt_type sv < length (strings (stringTable st))"
    and "vt_unit sv < length (strings (stringTable st))"
    and "vt_type tv < length (strings (stringTable st))"
    and "vt_unit tv < length (strings (stringTable st))"
    and "namedFunctions W st" and "describedLocations W st"
    and "allocated (locationKeys (topDownRoot prof)) st"
proof -
  obtain sv t1 where a: "createSampleValueType newStringTable = (sv, t1)"
    by (cases "createSampleValueType newStringTable")
  obtain tv t2 where b: "createTimeValueType t1 = (tv, t2)"
    by (cases "createTimeValueType t1")
  from createSampleValueType_wf [OF wf_table_new a] obtain ys1 where
    w1: "wf_table t1" and s1: "vt_type sv < length (strings t1)" "vt_unit sv < length (strings t1)"
    and y1: "strings t1 = strings newStringTable @ ys1"
    by blast
  from createTimeValueType_wf [OF w1 b] obtain ys2 where
    w2: "wf_table t2" and s2: "vt_type tv < length (strings t2)" "vt_unit tv < length (strings t2)"
    and y2: "strings t2 = strings t1 @ ys2"
    by blast
  have stk: "\<And>e s. s \<in> set (timeSamples i e) \<Longrightarrow> locationId s = snd e"
    by (rule timeSamples_stack)
  from serialize_run_char [of "appendTimeEntryToSamples i" "timeSamples i" t2 "topDownRoot prof" W,
      OF appendTimeEntryToSamples_appends stk w2]
  obtain st ys3 where run: "serialize_run (topDownRoot prof) (appendTimeEntryToSamples i) t2 = Some st"
    and wf: "wf_state st" and vis: "visited (fst ` set (visitOrder (topDownRoot prof))) st"
    and sam: "samples st = concat (map (\<lambda>g. timeSamples i (fst g, map (lid st) (fst g # snd g)))
           (visitOrder (topDownRoot prof)))"
    and y3: "strings (stringTable st) = strings t2 @ ys3"
    and nd: "namedFunctions W st" "describedLocations W st"
      "allocated (locationKeys (topDownRoot prof)) st"
    by blast
  have res: "serializeTimeProfile prof i =
       Some \<lparr>p_sampleType = [sv, tv], p_sample = samples st, p_location = locations st,
             p_function = functions' st, p_stringTable = strings (stringTable st),
             p_timeNanos = startTime prof * 1000 * 1000,
             p_durationNanos = (endTime prof - startTime prof) * 1000 * 1000,
             p_periodType = tv, p_period = i\<rparr>"
    by (simp add: serializeTimeProfile_def a b serialize_def run)
  have strs: "strings (stringTable st) = [] # (ys1 @ ys2 @ ys3)"
    by (simp add: y3 y2 y1 strings_new)
  then have "strings (stringTable st) ! 0 = []" by simp
  moreover have "vt_type sv < length (strings (stringTable st))"
    "vt_unit sv < length (strings (stringTable st))"
    "vt_type tv < length (strings (stringTable st))"
    "vt_unit tv < length (strings (stringTable st))"
    using s1 s2 by (simp_all add: y3 y2)
  ultimately show thesis
    using that [OF res run wf vis sam] nd by blast
qed

lemma serializeHeapProfile_result:
  obtains sv av t2 st where
    "serializeHeapProfile prof startTimeNanos durationNanos intervalBytes =
       Some \<lparr>p_sampleType = [sv, av], p_sample = samples st, p_location = locations st,
             p_function = functions' st, p_stringTable = strings (stringTable st),
             p_timeNanos = startTimeNanos, p_durationNanos = durationNanos,
             p_periodType = av, p_period = intervalBytes\<rparr>"
    and "serialize_run prof appendHeapEntryToSamples t2 = Some st"
    and "wf_state st" and "visited (fst ` set (visitOrder prof)) st"
    and "samples st = concat (map (\<lambda>g. heapSamples (fst g, map (lid st) (fst g # snd g)))
           (visitOrder prof))"
    and "strings (stringTable st) ! 0 = []"
    and "vt_type sv < length (strings (stringTable st))"
    and "vt_unit sv < length (strings (stringTable st))"
    and "vt_type av < length (strings (stringTable st))"
    and "vt_unit av < length (strings (stringTable st))"
    and "namedFunctions W st" and "describedLocations W st"
    and "allocated (locationKeys prof) st"
proof -
  obtain sv t1 where a: "createSampleValueType newStringTable = (sv, t1)"
    by (cases "createSampleValueType newStringTable")
  obtain av t2 where b: "createAllocationValueType t1 = (av, t2)"
    by (cases "createAllocationValueType t1")
  from createSampleValueType_wf [OF wf_table_new a] obtain ys1 where
    w1: "wf_table t1" and s1: "vt_type sv < length (strings t1)" "vt_unit sv < length (strings t1)"
    and y1: "strings t1 = strings newStringTable @ ys1"
    by blast
  from createAllocationValueType_wf [OF w1 b] obtain ys2 where
    w2: "wf_table t2" and s2: "vt_type av < length (strings t2)" "vt_unit av < length (strings t2)"
    and y2: "strings t2 = strings t1 @ ys2"
    by blast
  from serialize_run_char [of appendHeapEntryToSamples heapSamples t2 prof W,
      OF appendHeapEntryToSamples_appends heapSamples_stack w2]
  obtain st ys3 where run: "serialize_run prof appendHeapEntryToSamples t2 = Some st"
    and wf: "wf_state st" and vis: "visited (fst ` set (visitOrder prof)) st"
    and sam: "samples st = concat (map (\<lambda>g. heapSamples (fst g, map (lid st) (fst g # snd g)))
           (visitOrder prof))"
    and y3: "strings (stringTable st) = strings t2 @ ys3"
    and nd: "namedFunctions W st" "describedLocations W st"
      "allocated (locationKeys prof) st"
    by blast
  have res: "serializeHeapProfile prof startTimeNanos durationNanos intervalBytes =
       Some \<lparr>p_sampleType = [sv, av], p_sample = samples st, p_location = locations st,
             p_function = functions' st, p_stringTable = strings (stringTable st),
             p_timeNanos = startTimeNanos, p_durationNanos = durationNanos,
             p_periodType = av, p_period = intervalBytes\<rparr>"
    by (simp add: serializeHeapProfile_def a b serialize_def run)
  have strs: "strings (stringTable st) = [] # (ys1 @ ys2 @ ys3)"
    by (simp add: y3 y2 y1 strings_new)
  then have "strings (stringTable st) ! 0 = []" by simp
  moreover have "vt_type sv < length (strings (stringTable st))"
    "vt_unit sv < length (strings (stringTable st))"
    "vt_type av < length (strings (stringTable st))"
    "vt_unit av < length (strings (stringTable st))"
    using s1 s2 by (simp_all add: y3 y2)
  ultimately show thesis
    using that [OF res run wf vis sam] nd by blast
qed

lemma wf_state_validReferences:
  assumes "wf_state st"
    and "\<forall>v \<in> set vs. vt_type v < length (strings (stringTable st)) \<and>
           vt_unit v < length (strings (stringTable st))"
  shows "validReferences \<lparr>p_sampleType = vs, p_sample = samples st, p_location = locations st,
             p_function = functions' st, p_stringTable = strings (stringTable st),
             p_timeNanos = a, p_durationNanos = b, p_periodType = c, p_period = d\<rparr>"
  using assms
  unfolding validReferences_def wf_state_def wf_functions_def wf_locations_def wf_samples_def
  by simp

lemma described_locationOf:
  assumes wf: "wf_state st" and nf: "namedFunctions W st" and dl: "describedLocations W st"
    and n: "n \<in> W" and key: "locationIdMap st (locationKey n) = Some i"
  shows "locationOf \<lparr>p_sampleType = vs, p_sample = samples st, p_location = locations st,
             p_function = functions' st, p_stringTable = strings (stringTable st),
             p_timeNanos = a, p_durationNanos = b, p_periodType = c, p_period = d\<rparr> n i"
proof -
  from wf have wfn: "wf_functions st" and wl: "wf_locations st"
    by (simp_all add: wf_state_def)
  from wl key have range: "1 \<le> i" "i \<le> length (locations st)"
    by (auto simp: wf_locations_def)
  then have "i - 1 < length (locations st)" by simp
  with wl have "loc_id (locations st ! (i - 1)) = i - 1 + 1"
    unfolding wf_locations_def by blast
  with range have id: "loc_id (locations st ! (i - 1)) = i" by simp
  from dl n key obtain fi where fi: "functionIdMap st (functionKey n) = Some fi"
    and ln: "loc_line (locations st ! (i - 1)) = [\<lparr>functionId = fi, line = lineNumber n\<rparr>]"
    unfolding describedLocations_def by blast
  from wfn fi have frange: "1 \<le> fi" "fi \<le> length (functions' st)"
    by (auto simp: wf_functions_def)
  then have "functions' st ! (fi - 1) \<in> set (functions' st)" by simp
  with wfn have lt: "fn_name (functions' st ! (fi - 1)) < length (strings (stringTable st))"
    unfolding wf_functions_def by blast
  from nf n fi have nm: "strings (stringTable st) ! fn_name (functions' st ! (fi - 1)) = name n"
    unfolding namedFunctions_def by blast
  from range id ln frange lt nm show ?thesis
    by (simp add: locationOf_def)
qed

subsection \<open>Facts about paths\<close>

lemma subtreePaths_unfold:
  "subtreePaths n anc = (n, anc) # concat (map (\<lambda>c. subtreePaths c (n # anc)) (children n))"
  by (cases n) simp

lemma mset_concat_rev: "mset (concat (rev xss)) = mset (concat xss)"
  by (induction xss) simp_all

lemma mset_concat_map_cong:
  assumes "\<And>x. x \<in> set xs \<Longrightarrow> mset (f x) = mset (g x)"
  shows "mset (concat (map f xs)) = mset (concat (map g xs))"
  using assms by (induction xs) simp_all

lemma mset_treeOrder: "mset (treeOrder n anc) = mset (subtreePaths n anc)"
proof (induction n arbitrary: anc)
  case (ProfileNode nm sn sid ln cn p cs)
  let ?n = "ProfileNode nm sn sid ln cn p cs"
  have "mset (concat (map (\<lambda>c. treeOrder c (?n # anc)) (rev cs))) =
      mset (concat (map (\<lambda>c. treeOrder c (?n # anc)) cs))"
    using mset_concat_rev [of "map (\<lambda>c. treeOrder c (?n # anc)) cs"] by (simp add: rev_map)
  also have "\<dots> = mset (concat (map (\<lambda>c. subtreePaths c (?n # anc)) cs))"
    by (rule mset_concat_map_cong) (rule ProfileNode.IH)
  finally show ?case by simp
qed

lemma mset_visitOrder:
  "mset (map fst (visitOrder root)) = mset (descendants root)"
proof -
  let ?cs = "children root"
  have "mset (visitOrder root) = mset (concat (map (\<lambda>c. treeOrder c []) (rev ?cs)))"
    by (simp add: visitOrder_def forestOrder_def rev_map comp_def)
  also have "\<dots> = mset (concat (map (\<lambda>c. treeOrder c []) ?cs))"
    using mset_concat_rev [of "map (\<lambda>c. treeOrder c []) ?cs"] by (simp add: rev_map)
  also have "\<dots> = mset (concat (map (\<lambda>c. subtreePaths c []) ?cs))"
    by (rule mset_concat_map_cong) (rule mset_treeOrder)
  finally have "mset (visitOrder root) = mset (concat (map (\<lambda>c. subtreePaths c []) ?cs))" .
  then have "image_mset fst (mset (visitOrder root)) =
      image_mset fst (mset (concat (map (\<lambda>c. subtreePaths c []) ?cs)))"
    by simp
  then show ?thesis by (simp add: descendants_def)
qed

lemma set_visitOrder: "fst ` set (visitOrder root) = set (descendants root)"
proof -
  have "set (map fst (visitOrder root)) = set (descendants root)"
    using mset_visitOrder [of root] by (rule mset_eq_setD)
  then show ?thesis by simp
qed

lemma ancestry_treeOrder:
  "ancestry root (n # anc) \<Longrightarrow> g \<in> set (treeOrder n anc) \<Longrightarrow> ancestry root (fst g # snd g)"
proof (induction n arbitrary: anc g)
  case (ProfileNode nm sn sid ln cn p cs)
  let ?n = "ProfileNode nm sn sid ln cn p cs"
  from ProfileNode.prems(2) consider (self) "g = (?n, anc)"
    | (below) c where "c \<in> set cs" "g \<in> set (treeOrder c (?n # anc))"
    by auto
  then show ?case
  proof cases
    case self
    with ProfileNode.prems(1) show ?thesis by simp
  next
    case below
    from below(1) ProfileNode.prems(1) have "ancestry root (c # ?n # anc)" by simp
    from ProfileNode.IH [OF below(1) this below(2)] show ?thesis .
  qed
qed

lemma ancestry_visitOrder:
  assumes "g \<in> set (visitOrder root)"
  shows "ancestry root (fst g # snd g)"
proof -
  from assms obtain c where c: "c \<in> set (children root)" and g: "g \<in> set (treeOrder c [])"
    by (auto simp: visitOrder_def forestOrder_def)
  from c have "ancestry root [c]" by simp
  from ancestry_treeOrder [OF this g] show ?thesis .
qed

lemma child_size_less: "c \<in> set (children n) \<Longrightarrow> size c < size n"
proof -
  assume "c \<in> set (children n)"
  then have "size c \<le> sum_list (map size (children n))"
    by (simp add: member_le_sum_list)
  with children_size_less [of n] show ?thesis by simp
qed

lemma ancestry_size: "ancestry root path \<Longrightarrow> n \<in> set path \<Longrightarrow> size n < size root"
proof (induction root path arbitrary: n rule: ancestry.induct)
  case (1 root)
  then show ?case by simp
next
  case (2 root m)
  then show ?case by (simp add: child_size_less)
next
  case (3 root m p rest)
  from "3.prems"(1) have mp: "m \<in> set (children p)" and anc: "ancestry root (p # rest)"
    by simp_all
  from "3.IH" [OF anc] have ih: "\<And>x. x \<in> set (p # rest) \<Longrightarrow> size x < size root" .
  show ?case
  proof (cases "n = m")
    case True
    from child_size_less [OF mp] ih [of p] True show ?thesis by simp
  next
    case False
    with "3.prems"(2) have "n \<in> set (p # rest)" by simp
    then show ?thesis by (rule ih)
  qed
qed

lemma ancestry_not_root: "ancestry root path \<Longrightarrow> root \<notin> set path"
  using ancestry_size [of root path root] by auto

subsection \<open>Facts about the identifiers of the visited nodes\<close>

lemma location_ids_bij:
  assumes wf: "wf_state st" and vis: "visited (fst ` set (visitOrder root)) st"
  shows "bij_betw (\<lambda>k. the (locationIdMap st k)) (locationKey ` set (descendants root))
    {1..length (locations st)}"
proof -
  let ?K = "locationKey ` set (descendants root)"
  let ?f = "\<lambda>k. the (locationIdMap st k)"
  from vis have dom: "dom (locationIdMap st) = ?K" and card: "card ?K = length (locations st)"
    by (simp_all add: visited_def set_visitOrder)
  from wf have wl: "wf_locations st" by (simp add: wf_state_def)
  have inj: "inj_on ?f ?K"
  proof (rule inj_onI)
    fix k k'
    assume "k \<in> ?K" "k' \<in> ?K" and eq: "?f k = ?f k'"
    with dom obtain i i' where "locationIdMap st k = Some i" "locationIdMap st k' = Some i'"
      by (metis domD)
    with eq wl show "k = k'"
      unfolding wf_locations_def by (metis option.sel)
  qed
  have sub: "?f ` ?K \<subseteq> {1..length (locations st)}"
  proof
    fix i
    assume "i \<in> ?f ` ?K"
    then obtain k where "k \<in> ?K" "i = ?f k" by blast
    with dom obtain j where "locationIdMap st k = Some j" "i = j"
      by (metis domD option.sel)
    with wl show "i \<in> {1..length (locations st)}"
      unfolding wf_locations_def by (metis atLeastAtMost_iff)
  qed
  have "card (?f ` ?K) = card {1..length (locations st)}"
    using card_image [OF inj] card by simp
  with sub have "?f ` ?K = {1..length (locations st)}"
    by (simp add: card_subset_eq)
  with inj show ?thesis by (simp add: bij_betw_def)
qed

lemma concat_map_member:
  "s \<in> set (concat (map f xs)) \<Longrightarrow> \<exists>g \<in> set xs. s \<in> set (f g)"
  by auto

subsection \<open>Facts about the order of the identifiers\<close>

lemma treeOrder_ancestors:
  "g \<in> set (treeOrder n anc) \<Longrightarrow> a \<in> set (snd g) \<Longrightarrow>
   a \<in> set anc \<or> a \<in> fst ` set (treeOrder n anc)"
proof (induction n arbitrary: anc g)
  case (ProfileNode nm sn sid ln cn p cs)
  let ?n = "ProfileNode nm sn sid ln cn p cs"
  from ProfileNode.prems(1) consider (self) "g = (?n, anc)"
    | (below) c where "c \<in> set cs" "g \<in> set (treeOrder c (?n # anc))"
    by auto
  then show ?case
  proof cases
    case self
    with ProfileNode.prems(2) show ?thesis by simp
  next
    case below
    from ProfileNode.IH [OF below(1) below(2) ProfileNode.prems(2)]
    have "a \<in> set (?n # anc) \<or> a \<in> fst ` set (treeOrder c (?n # anc))" .
    then consider "a = ?n" | "a \<in> set anc" | "a \<in> fst ` set (treeOrder c (?n # anc))"
      by auto
    then show ?thesis
    proof cases
      case 1
      then show ?thesis by (simp add: image_iff)
    next
      case 2
      then show ?thesis by simp
    next
      case 3
      then obtain h where h: "h \<in> set (treeOrder c (?n # anc))" "a = fst h" by auto
      from below(1) h(1) have "h \<in> set (treeOrder ?n anc)" by auto
      with h(2) show ?thesis by (metis imageI)
    qed
  qed
qed

lemma visitOrder_ancestors:
  assumes g: "g \<in> set (visitOrder root)" and a: "a \<in> set (fst g # snd g)"
  shows "a \<in> fst ` set (visitOrder root)"
proof (cases "a = fst g")
  case True
  with g show ?thesis by (metis imageI)
next
  case False
  with a have a': "a \<in> set (snd g)" by simp
  from g obtain c where c: "c \<in> set (children root)" and gc: "g \<in> set (treeOrder c [])"
    by (auto simp: visitOrder_def forestOrder_def)
  from treeOrder_ancestors [OF gc a'] obtain h where h: "h \<in> set (treeOrder c [])" "a = fst h"
    by auto
  from c h(1) have "h \<in> set (visitOrder root)"
    by (auto simp: visitOrder_def forestOrder_def)
  with h(2) show ?thesis by (metis imageI)
qed

lemma lid_locationIdOf:
  assumes al: "allocated (locationKeys root) st" and g: "g \<in> set (visitOrder root)"
  shows "map (lid st) (fst g # snd g) = map (locationIdOf root) (fst g # snd g)"
proof (rule map_cong [OF refl])
  fix a
  assume "a \<in> set (fst g # snd g)"
  from visitOrder_ancestors [OF g this] obtain h where h: "h \<in> set (visitOrder root)" "a = fst h"
    by auto
  then have "locationKey a \<in> set (locationKeys root)"
    by (auto simp: locationKeys_def set_keysInOrder)
  from allocated_lookup [OF al this] show "lid st a = locationIdOf root a"
    by (simp add: lid_def locationIdOf_def)
qed

lemma set_locationKeys: "set (locationKeys root) = locationKey ` set (descendants root)"
  by (simp add: locationKeys_def set_keysInOrder set_visitOrder [symmetric] image_image)

lemma locationIdOf_lookup:
  assumes al: "allocated (locationKeys root) st" and n: "n \<in> set (descendants root)"
  shows "locationIdMap st (locationKey n) = Some (locationIdOf root n)"
proof -
  from n have "locationKey n \<in> set (locationKeys root)"
    by (simp add: set_locationKeys)
  from allocated_lookup [OF al this] show ?thesis
    by (simp add: locationIdOf_def)
qed

lemma location_ids_in_order:
  assumes wf: "wf_state st" and vis: "visited (fst ` set (visitOrder root)) st"
    and al: "allocated (locationKeys root) st"
  shows "bij_betw (\<lambda>k. indexOf (locationKeys root) k + 1) (locationKey ` set (descendants root))
    {1..length (locations st)}"
proof -
  have "the (locationIdMap st k) = indexOf (locationKeys root) k + 1"
    if "k \<in> locationKey ` set (descendants root)" for k
  proof -
    from that have "k \<in> set (locationKeys root)" by (simp add: set_locationKeys)
    from allocated_lookup [OF al this] show ?thesis by simp
  qed
  with location_ids_bij [OF wf vis] show ?thesis
    by (simp cong: bij_betw_cong)
qed

subsection \<open>Facts about the samples of a time profile\<close>

lemma timeSamples_values:
  "map sampleValue (concat (map (\<lambda>g. timeSamples i (fst g, f g)) gs)) =
   map (\<lambda>n. [int (hitCount n), int (hitCount n) * i]) (filter (\<lambda>n. 0 < hitCount n) (map fst gs))"
  by (induction gs) (simp_all add: timeSamples_def)

lemma sum_hitCount_filter:
  "(\<Sum>n\<leftarrow>filter (\<lambda>n. 0 < hitCount n) ns. int (hitCount n)) = int (\<Sum>n\<leftarrow>ns. hitCount n)"
  by (induction ns) simp_all

lemma sum_list_mset_cong:
  assumes "mset xs = mset ys"
  shows "(\<Sum>x\<leftarrow>xs. (f x :: nat)) = (\<Sum>x\<leftarrow>ys. f x)"
proof -
  from assms have "mset (map f xs) = mset (map f ys)" by simp
  then have "sum_mset (mset (map f xs)) = sum_mset (mset (map f ys))" by simp
  then show ?thesis by (simp only: sum_mset_sum_list)
qed

subsection \<open>Facts about the native string table\<close>

lemma stringID_known: "stringID s p = (i, p') \<Longrightarrow> c_stringIDMap p' s = Some i"
  by (auto simp: stringID_def Let_def split: option.splits)

lemma stringID_hit: "c_stringIDMap p s = Some i \<Longrightarrow> stringID s p = (i, p)"
  by (simp add: stringID_def)

lemma stringID_again: "stringID s p = (i, p') \<Longrightarrow> stringID s p' = (i, p')"
  by (rule stringID_hit) (rule stringID_known)

lemma stringID_extends: "stringID s p = (i, p') \<Longrightarrow> \<exists>ys. c_strings p' = c_strings p @ ys"
  by (auto simp: stringID_def Let_def split: option.splits)

lemma stringID_first: "c_strings p = [] \<Longrightarrow> c_stringIDMap p = Map.empty \<Longrightarrow>
    stringID s p = (i, p') \<Longrightarrow> c_strings p' = [s]"
  by (auto simp: stringID_def Let_def)

lemma newProfile_strings:
  "\<exists>ys. c_strings (newProfile typeFirst periodType periodUnit period timeNanos durationNanos
     dropFrames keepFrames) = [] # ys"
proof -
  let ?p0 = "\<lparr>c_sampleType = [], c_location = [], c_function = [], c_strings = [],
                c_stringIDMap = Map.empty, c_functionIDMap = Map.empty,
                c_locationIDMap = Map.empty, c_period = period, c_timeNanos = timeNanos,
                c_durationNanos = durationNanos,
                c_periodType = \<lparr>typeX = 0, unitX = 0\<rparr>,
                c_dropFramesX = 0, c_keepFramesX = 0, c_defaultSampleTypeX = 0\<rparr>"
  obtain e p1 where e: "stringID [] ?p0 = (e, p1)" by (cases "stringID [] ?p0")
  then have s1: "c_strings p1 = [[]]" by (auto simp: stringID_def Let_def)
  let ?a = "if typeFirst then periodType else periodUnit"
  let ?b = "if typeFirst then periodUnit else periodType"
  obtain x p2 where x: "stringID ?a p1 = (x, p2)" by (cases "stringID ?a p1")
  obtain y p3 where y: "stringID ?b p2 = (y, p3)" by (cases "stringID ?b p2")
  let ?t = "if typeFirst then x else y"
  let ?u = "if typeFirst then y else x"
  let ?p4 = "p3\<lparr>c_periodType := \<lparr>typeX = ?t, unitX = ?u\<rparr>\<rparr>"
  obtain d p5 where d: "stringID dropFrames ?p4 = (d, p5)" by (cases "stringID dropFrames ?p4")
  let ?p6 = "p5\<lparr>c_dropFramesX := d\<rparr>"
  obtain k p7 where k: "stringID keepFrames ?p6 = (k, p7)" by (cases "stringID keepFrames ?p6")
  have res: "newProfile typeFirst periodType periodUnit period timeNanos durationNanos
     dropFrames keepFrames = p7\<lparr>c_keepFramesX := k\<rparr>"
    using e x y d k by (cases typeFirst) (simp_all add: newProfile_def Let_def)
  from stringID_extends [OF x] stringID_extends [OF y] stringID_extends [OF d]
    stringID_extends [OF k] s1
  have "\<exists>ys. c_strings p7 = [] # ys" by auto
  with res show ?thesis by simp
qed

subsection \<open>Interning twice\<close>

lemma elementAt_snoc: "elementAt (xs @ [x]) (length xs + 1) = Some x"
  by (simp add: elementAt_def)

lemma getFunction_again:
  assumes "getFunction n st = Some (f, st1)"
  shows "getFunction n st1 = Some (f, st1)"
proof (cases "functionIdMap st (functionKey n)")
  case (Some i)
  with assms show ?thesis
    by (auto simp: getFunction_def)
next
  case None
  obtain a t1 where a: "getIndexOrAdd (name n) (stringTable st) = (a, t1)"
    by (cases "getIndexOrAdd (name n) (stringTable st)")
  obtain b t2 where b: "getIndexOrAdd (scriptName n) t1 = (b, t2)"
    by (cases "getIndexOrAdd (scriptName n) t1")
  from getFunction_miss [OF None a b] assms
  have f: "f = \<lparr>fn_id = length (functions' st) + 1, fn_name = a, fn_systemName = a,
            fn_filename = b, fn_startLine = 0\<rparr>"
    and st1: "st1 = st\<lparr>functionIdMap := (functionIdMap st)(functionKey n \<mapsto> length (functions' st) + 1),
             stringTable := t2, functions' := functions' st @ [f]\<rparr>"
    by simp_all
  have "functionIdMap st1 (functionKey n) = Some (length (functions' st) + 1)"
    by (simp add: st1)
  moreover have "elementAt (functions' st1) (length (functions' st) + 1) = Some f"
    using elementAt_snoc [of "functions' st" f] by (simp add: st1)
  ultimately show ?thesis
    by (simp add: getFunction_def)
qed

lemma getLocation_again:
  assumes "getLocation n st = Some (l, st1)"
  shows "getLocation n st1 = Some (l, st1)"
proof (cases "locationIdMap st (locationKey n)")
  case (Some i)
  with assms show ?thesis
    by (auto simp: getLocation_def)
next
  case None
  show ?thesis
  proof (cases "getFunction n st")
    case None': None
    from getLocation_None [OF None None'] assms show ?thesis by simp
  next
    case (Some q)
    obtain f stf where q: "q = (f, stf)" by (cases q)
    from getLocation_miss [OF None Some [unfolded q]] assms
    have l: "l = \<lparr>loc_id = length (locations st) + 1,
            loc_line = [\<lparr>functionId = fn_id f, line = lineNumber n\<rparr>]\<rparr>"
      and st1: "st1 = stf\<lparr>locationIdMap := (locationIdMap st)(locationKey n \<mapsto> length (locations st) + 1),
              locations := locations st @ [l]\<rparr>"
      by simp_all
    have "locationIdMap st1 (locationKey n) = Some (length (locations st) + 1)"
      by (simp add: st1)
    moreover have "elementAt (locations st1) (length (locations st) + 1) = Some l"
      using elementAt_snoc [of "locations st" l] by (simp add: st1)
    ultimately show ?thesis
      by (simp add: getLocation_def)
  qed
qed

lemma functionID_again: "functionID cn p = (i, p') \<Longrightarrow> functionID cn p' = (i, p')"
  by (auto simp: functionID_def Let_def split: option.splits prod.splits)

lemma locationID_again: "locationID cn p = (i, p') \<Longrightarrow> locationID cn p' = (i, p')"
  by (auto simp: locationID_def Let_def split: option.splits prod.splits)

lemma getFunction_total: "wf_state st \<Longrightarrow> getFunction n st \<noteq> None"
  using getFunction_wf [of st n] by (auto simp: wf_state_def)

lemma getLocation_total:
  assumes "wf_state st"
  shows "getLocation n st \<noteq> None"
proof (cases "locationIdMap st (locationKey n)")
  case (Some i)
  with assms have "1 \<le> i" "i \<le> length (locations st)"
    by (auto simp: wf_state_def wf_locations_def)
  from getLocation_hit [OF Some this] show ?thesis by simp
next
  case None
  from getFunction_total [OF assms, of n] obtain f stf where "getFunction n st = Some (f, stf)"
    by auto
  from getLocation_miss [OF None this] show ?thesis by simp
qed

subsection \<open>Siblings\<close>

lemma serialize_loop_Nil_fun: "serialize_loop app [] = Some"
  by (rule ext) (rule serialize_loop_Nil)

lemma serialize_loop_fold:
  "fold (\<lambda>c r. Option.bind r (serialize_loop app [(c, stk)])) (rev cs) r =
     Option.bind r (serialize_loop app (map (\<lambda>c. (c, stk)) cs))"
proof (induction cs arbitrary: r rule: rev_induct)
  case Nil
  show ?case by (simp add: serialize_loop_Nil_fun)
next
  case (snoc c cs)
  have "fold (\<lambda>c r. Option.bind r (serialize_loop app [(c, stk)])) (rev (cs @ [c])) r =
      fold (\<lambda>c r. Option.bind r (serialize_loop app [(c, stk)])) (rev cs)
        (Option.bind r (serialize_loop app [(c, stk)]))"
    by simp
  also have "\<dots> = Option.bind (Option.bind r (serialize_loop app [(c, stk)]))
      (serialize_loop app (map (\<lambda>c. (c, stk)) cs))"
    by (rule snoc.IH)
  also have "\<dots> = Option.bind r (\<lambda>s. Option.bind (serialize_loop app [(c, stk)] s)
      (serialize_loop app (map (\<lambda>c. (c, stk)) cs)))"
    by (cases r) simp_all
  also have "\<dots> = Option.bind r (serialize_loop app (map (\<lambda>c. (c, stk)) (cs @ [c])))"
    using serialize_loop_append [of app "map (\<lambda>c. (c, stk)) cs" "[(c, stk)]"]
    by (cases r) simp_all
  finally show ?case .
qed

subsection \<open>Facts about a new function entry\<close>

lemma getFunction_miss_entry:
  assumes wt: "wf_table (stringTable st)" and miss: "functionIdMap st (functionKey n) = None"
  shows "\<exists>f st1. getFunction n st = Some (f, st1) \<and>
    functions' st1 = functions' st @ [f] \<and> fn_id f = length (functions' st) + 1 \<and>
    fn_name f = fn_systemName f \<and>
    fn_name f < length (strings (stringTable st1)) \<and>
    strings (stringTable st1) ! fn_name f = name n \<and>
    fn_filename f < length (strings (stringTable st1)) \<and>
    strings (stringTable st1) ! fn_filename f = scriptName n \<and>
    fn_startLine f = 0"
proof -
  obtain a t1 where a: "getIndexOrAdd (name n) (stringTable st) = (a, t1)"
    by (cases "getIndexOrAdd (name n) (stringTable st)")
  obtain b t2 where b: "getIndexOrAdd (scriptName n) t1 = (b, t2)"
    by (cases "getIndexOrAdd (scriptName n) t1")
  from getIndexOrAdd_wf [OF wt a]
  have w1: "wf_table t1" and a1: "a < length (strings t1)" "strings t1 ! a = name n"
    by simp_all
  from getIndexOrAdd_wf [OF w1 b]
  have b2: "b < length (strings t2)" "strings t2 ! b = scriptName n"
    by simp_all
  from getIndexOrAdd_extends [OF b] obtain ys where "strings t2 = strings t1 @ ys"
    by blast
  with a1 have a2: "a < length (strings t2)" "strings t2 ! a = name n"
    by (simp_all add: nth_append)
  from getFunction_miss [OF miss a b] a2 b2 show ?thesis
    by simp
qed

lemma stringID_index:
  assumes "\<forall>k i. c_stringIDMap p k = Some i \<longrightarrow> i < length (c_strings p) \<and> c_strings p ! i = k"
    and "stringID s p = (i, p')"
  shows "(\<forall>k i. c_stringIDMap p' k = Some i \<longrightarrow> i < length (c_strings p') \<and> c_strings p' ! i = k) \<and>
    i < length (c_strings p') \<and> c_strings p' ! i = s"
proof (cases "c_stringIDMap p s")
  case None
  with assms(2) have p': "p' = p\<lparr>c_stringIDMap := (c_stringIDMap p)(s \<mapsto> length (c_strings p)),
      c_strings := c_strings p @ [s]\<rparr>" and i: "i = length (c_strings p)"
    by (auto simp: stringID_def Let_def)
  show ?thesis
    unfolding p' i using assms(1) by (auto simp: nth_append less_Suc_eq)
next
  case (Some j)
  with assms show ?thesis by (auto simp: stringID_def)
qed

lemma functionID_miss_entry:
  assumes wt: "\<forall>k i. c_stringIDMap p k = Some i \<longrightarrow> i < length (c_strings p) \<and> c_strings p ! i = k"
    and miss: "c_functionIDMap p (n_fileID node, n_name node) = None"
  shows "\<exists>i f p'. functionID node p = (i, p') \<and> c_function p' = c_function p @ [f] \<and>
    pf_id f = i \<and> i = length (c_function p) + 1 \<and>
    pf_nameX f = pf_systemNameX f \<and> c_strings p' ! pf_nameX f = n_name node \<and>
    c_strings p' ! pf_filenameX f = n_filename node \<and>
    pf_startLine f = n_lineNumber node"
proof -
  obtain a p1 where a: "stringID (n_name node) p = (a, p1)"
    by (cases "stringID (n_name node) p")
  obtain b p2 where b: "stringID (n_filename node) p1 = (b, p2)"
    by (cases "stringID (n_filename node) p1")
  from stringID_index [OF wt a]
  have w1: "\<forall>k i. c_stringIDMap p1 k = Some i \<longrightarrow> i < length (c_strings p1) \<and> c_strings p1 ! i = k"
    and a1: "a < length (c_strings p1)" "c_strings p1 ! a = n_name node"
    by simp_all
  from stringID_index [OF w1 b]
  have b2: "c_strings p2 ! b = n_filename node" by simp
  from stringID_extends [OF b] obtain ys where "c_strings p2 = c_strings p1 @ ys" by blast
  with a1 have a2: "c_strings p2 ! a = n_name node" by (simp add: nth_append)
  have f1: "c_function p1 = c_function p" "c_functionIDMap p1 = c_functionIDMap p"
    using a by (auto simp: stringID_def Let_def split: option.splits)
  have f2: "c_function p2 = c_function p1"
    using b by (auto simp: stringID_def Let_def split: option.splits)
  show ?thesis
    using miss a b a2 b2 f1 f2 by (simp add: functionID_def Let_def)
qed

lemma serializeTimeProfile_times:
  "\<exists>p. serializeTimeProfile prof i = Some p \<and>
     p_timeNanos p = startTime prof * 1000000 \<and>
     p_durationNanos p = (endTime prof - startTime prof) * 1000000"
proof (rule serializeTimeProfile_result [where prof = prof and i = i])
  fix sv tv st
  assume "serializeTimeProfile prof i =
       Some \<lparr>p_sampleType = [sv, tv], p_sample = samples st, p_location = locations st,
             p_function = functions' st, p_stringTable = strings (stringTable st),
             p_timeNanos = startTime prof * 1000 * 1000,
             p_durationNanos = (endTime prof - startTime prof) * 1000 * 1000,
             p_periodType = tv, p_period = i\<rparr>"
  then show ?thesis by simp
qed

section \<open>Lemmas about polling\<close>







section \<open>The claims\<close>

lemma exTimeProfile_eval: "serializeTimeProfile exTimeProfile 1 = Some exTimeOutput"
  by code_simp

lemma exHeapProfile_eval: "serializeHeapProfile exHeapProfile 0 10 512 = Some exHeapOutput"
  by code_simp

text \<open>
  Claim C1. In every profile that \<open>serializeTimeProfile\<close> or \<open>serializeHeapProfile\<close>
  builds, the identifier of a function or a location is its position in the table plus
  one (so 0 is never an identifier), every location identifier of a sample lies between 1
  and the number of locations, every function identifier of a line lies between 1 and the
  number of functions, and every string index of a sample type or a function is below the
  length of the string table. Both functions return a profile for every input.
\<close>

theorem serialized_references_valid:
  "(\<exists>p. serializeTimeProfile prof intervalMicros = Some p \<and> validReferences p) \<and>
   (\<exists>p. serializeHeapProfile root startTimeNanos durationNanos intervalBytes = Some p \<and>
        validReferences p)"
proof
  show "\<exists>p. serializeTimeProfile prof intervalMicros = Some p \<and> validReferences p"
  proof -
    obtain sv tv and t2 :: StringTable and st where res: "serializeTimeProfile prof intervalMicros =
       Some \<lparr>p_sampleType = [sv, tv], p_sample = samples st, p_location = locations st,
             p_function = functions' st, p_stringTable = strings (stringTable st),
             p_timeNanos = startTime prof * 1000 * 1000,
             p_durationNanos = (endTime prof - startTime prof) * 1000 * 1000,
             p_periodType = tv, p_period = intervalMicros\<rparr>"
      and wf: "wf_state st"
      and idx: "vt_type sv < length (strings (stringTable st))"
        "vt_unit sv < length (strings (stringTable st))"
        "vt_type tv < length (strings (stringTable st))"
        "vt_unit tv < length (strings (stringTable st))"
      by (rule serializeTimeProfile_result)
    from idx have "\<forall>v \<in> set [sv, tv]. vt_type v < length (strings (stringTable st)) \<and>
           vt_unit v < length (strings (stringTable st))"
      by simp
    from wf_state_validReferences [OF wf this] res show ?thesis by simp
  qed
  show "\<exists>p. serializeHeapProfile root startTimeNanos durationNanos intervalBytes = Some p \<and>
        validReferences p"
  proof -
    obtain sv av and t2 :: StringTable and st where res: "serializeHeapProfile root startTimeNanos durationNanos intervalBytes =
       Some \<lparr>p_sampleType = [sv, av], p_sample = samples st, p_location = locations st,
             p_function = functions' st, p_stringTable = strings (stringTable st),
             p_timeNanos = startTimeNanos, p_durationNanos = durationNanos,
             p_periodType = av, p_period = intervalBytes\<rparr>"
      and wf: "wf_state st"
      and idx: "vt_type sv < length (strings (stringTable st))"
        "vt_unit sv < length (strings (stringTable st))"
        "vt_type av < length (strings (stringTable st))"
        "vt_unit av < length (strings (stringTable st))"
      by (rule serializeHeapProfile_result)
    from idx have "\<forall>v \<in> set [sv, av]. vt_type v < length (strings (stringTable st)) \<and>
           vt_unit v < length (strings (stringTable st))"
      by simp
    from wf_state_validReferences [OF wf this] res show ?thesis by simp
  qed
qed

theorem serialized_references_valid_witness:
  "serializeTimeProfile exTimeProfile 1 = Some exTimeOutput \<and> validReferences exTimeOutput \<and>
   p_sample exTimeOutput \<noteq> [] \<and> p_location exTimeOutput \<noteq> [] \<and> p_function exTimeOutput \<noteq> [] \<and>
   serializeHeapProfile exHeapProfile 0 10 512 = Some exHeapOutput \<and> validReferences exHeapOutput \<and>
   p_sample exHeapOutput \<noteq> [] \<and> p_location exHeapOutput \<noteq> [] \<and> p_function exHeapOutput \<noteq> []"
proof -
  have ne: "p_sample exTimeOutput \<noteq> [] \<and> p_location exTimeOutput \<noteq> [] \<and> p_function exTimeOutput \<noteq> [] \<and>
    p_sample exHeapOutput \<noteq> [] \<and> p_location exHeapOutput \<noteq> [] \<and> p_function exHeapOutput \<noteq> []"
    by (simp add: exTimeOutput_def exHeapOutput_def)
  from serialized_references_valid [of exTimeProfile 1 exHeapProfile 0 10 512]
  have "validReferences exTimeOutput" "validReferences exHeapOutput"
    by (simp_all add: exTimeProfile_eval exHeapProfile_eval)
  with ne exTimeProfile_eval exHeapProfile_eval show ?thesis by simp
qed

text \<open>
  Claim C2. The samples of the profile are, node by node in the order of the visit, the
  samples that each node below the root emits, and the stack of a sample is the list of
  the location identifiers of the node that emits it (first), of its parent, and so on up
  to a child of the root; the root is not on that chain. The identifier of a node is the
  rank of its location key among the keys in the order of their first visit; these
  identifiers are in bijection with the location keys, and the location that bears the
  identifier of a node is that of the node (one line with its line number and a function
  with its name). Every node below the root is visited once.
\<close>

theorem sample_stack_is_path_to_root:
  "(\<exists>p. serializeTimeProfile prof intervalMicros = Some p \<and>
      p_sample p =
        concat (map (\<lambda>g. timeSamples intervalMicros
                         (fst g, map (locationIdOf (topDownRoot prof)) (fst g # snd g)))
                  (visitOrder (topDownRoot prof))) \<and>
      (\<forall>g \<in> set (visitOrder (topDownRoot prof)).
          ancestry (topDownRoot prof) (fst g # snd g) \<and> topDownRoot prof \<notin> set (fst g # snd g)) \<and>
      mset (map fst (visitOrder (topDownRoot prof))) = mset (descendants (topDownRoot prof)) \<and>
      bij_betw (\<lambda>k. indexOf (locationKeys (topDownRoot prof)) k + 1)
        (locationKey ` set (descendants (topDownRoot prof))) {1..length (p_location p)} \<and>
      (\<forall>n \<in> set (descendants (topDownRoot prof)).
          locationOf p n (locationIdOf (topDownRoot prof) n))) \<and>
   (\<exists>p. serializeHeapProfile root startTimeNanos durationNanos intervalBytes = Some p \<and>
      p_sample p =
        concat (map (\<lambda>g. heapSamples (fst g, map (locationIdOf root) (fst g # snd g)))
                  (visitOrder root)) \<and>
      (\<forall>g \<in> set (visitOrder root).
          ancestry root (fst g # snd g) \<and> root \<notin> set (fst g # snd g)) \<and>
      mset (map fst (visitOrder root)) = mset (descendants root) \<and>
      bij_betw (\<lambda>k. indexOf (locationKeys root) k + 1)
        (locationKey ` set (descendants root)) {1..length (p_location p)} \<and>
      (\<forall>n \<in> set (descendants root). locationOf p n (locationIdOf root n)))"
proof
  show "\<exists>p. serializeTimeProfile prof intervalMicros = Some p \<and>
      p_sample p =
        concat (map (\<lambda>g. timeSamples intervalMicros
                         (fst g, map (locationIdOf (topDownRoot prof)) (fst g # snd g)))
                  (visitOrder (topDownRoot prof))) \<and>
      (\<forall>g \<in> set (visitOrder (topDownRoot prof)).
          ancestry (topDownRoot prof) (fst g # snd g) \<and> topDownRoot prof \<notin> set (fst g # snd g)) \<and>
      mset (map fst (visitOrder (topDownRoot prof))) = mset (descendants (topDownRoot prof)) \<and>
      bij_betw (\<lambda>k. indexOf (locationKeys (topDownRoot prof)) k + 1)
        (locationKey ` set (descendants (topDownRoot prof))) {1..length (p_location p)} \<and>
      (\<forall>n \<in> set (descendants (topDownRoot prof)).
          locationOf p n (locationIdOf (topDownRoot prof) n))"
  proof -
    let ?root = "topDownRoot prof"
    let ?W = "set (descendants ?root)"
    obtain sv tv and t2 :: StringTable and st where res: "serializeTimeProfile prof intervalMicros =
       Some \<lparr>p_sampleType = [sv, tv], p_sample = samples st, p_location = locations st,
             p_function = functions' st, p_stringTable = strings (stringTable st),
             p_timeNanos = startTime prof * 1000 * 1000,
             p_durationNanos = (endTime prof - startTime prof) * 1000 * 1000,
             p_periodType = tv, p_period = intervalMicros\<rparr>"
      and wf: "wf_state st" and vis: "visited (fst ` set (visitOrder ?root)) st"
      and sam: "samples st = concat (map (\<lambda>g. timeSamples intervalMicros
           (fst g, map (lid st) (fst g # snd g))) (visitOrder ?root))"
      and nf: "namedFunctions ?W st" and dl: "describedLocations ?W st"
      and al: "allocated (locationKeys ?root) st"
      by (rule serializeTimeProfile_result [where prof = prof and i = intervalMicros and W = ?W])
    let ?p = "\<lparr>p_sampleType = [sv, tv], p_sample = samples st, p_location = locations st,
             p_function = functions' st, p_stringTable = strings (stringTable st),
             p_timeNanos = startTime prof * 1000 * 1000,
             p_durationNanos = (endTime prof - startTime prof) * 1000 * 1000,
             p_periodType = tv, p_period = intervalMicros\<rparr>"
    have eqm: "map (\<lambda>g. timeSamples intervalMicros (fst g, map (lid st) (fst g # snd g)))
          (visitOrder ?root) =
        map (\<lambda>g. timeSamples intervalMicros (fst g, map (locationIdOf ?root) (fst g # snd g)))
          (visitOrder ?root)"
    proof (rule map_cong [OF refl])
      fix g
      assume "g \<in> set (visitOrder ?root)"
      from lid_locationIdOf [OF al this]
      show "timeSamples intervalMicros (fst g, map (lid st) (fst g # snd g)) =
          timeSamples intervalMicros (fst g, map (locationIdOf ?root) (fst g # snd g))"
        by (simp only:)
    qed
    have "samples st = concat (map (\<lambda>g. timeSamples intervalMicros
           (fst g, map (locationIdOf ?root) (fst g # snd g))) (visitOrder ?root))"
      by (simp only: sam eqm)
    then have c1: "p_sample ?p = concat (map (\<lambda>g. timeSamples intervalMicros
           (fst g, map (locationIdOf ?root) (fst g # snd g))) (visitOrder ?root))"
      by simp
    have c2: "\<forall>g \<in> set (visitOrder ?root).
        ancestry ?root (fst g # snd g) \<and> ?root \<notin> set (fst g # snd g)"
    proof
      fix g
      assume "g \<in> set (visitOrder ?root)"
      from ancestry_visitOrder [OF this] have a: "ancestry ?root (fst g # snd g)" .
      with ancestry_not_root [OF a]
      show "ancestry ?root (fst g # snd g) \<and> ?root \<notin> set (fst g # snd g)" by simp
    qed
    have c3: "mset (map fst (visitOrder ?root)) = mset (descendants ?root)"
      by (rule mset_visitOrder)
    from location_ids_in_order [OF wf vis al]
    have c4: "bij_betw (\<lambda>k. indexOf (locationKeys ?root) k + 1) (locationKey ` ?W)
        {1..length (p_location ?p)}"
      by simp
    have c5: "\<forall>n \<in> ?W. locationOf ?p n (locationIdOf ?root n)"
    proof
      fix n
      assume n: "n \<in> ?W"
      from locationIdOf_lookup [OF al n]
      have "locationIdMap st (locationKey n) = Some (locationIdOf ?root n)" .
      from described_locationOf [OF wf nf dl n this]
      show "locationOf ?p n (locationIdOf ?root n)" .
    qed
    from res c1 c2 c3 c4 c5 show ?thesis
      by (intro exI [of _ ?p] conjI)
  qed
  show "\<exists>p. serializeHeapProfile root startTimeNanos durationNanos intervalBytes = Some p \<and>
      p_sample p =
        concat (map (\<lambda>g. heapSamples (fst g, map (locationIdOf root) (fst g # snd g)))
                  (visitOrder root)) \<and>
      (\<forall>g \<in> set (visitOrder root).
          ancestry root (fst g # snd g) \<and> root \<notin> set (fst g # snd g)) \<and>
      mset (map fst (visitOrder root)) = mset (descendants root) \<and>
      bij_betw (\<lambda>k. indexOf (locationKeys root) k + 1)
        (locationKey ` set (descendants root)) {1..length (p_location p)} \<and>
      (\<forall>n \<in> set (descendants root). locationOf p n (locationIdOf root n))"
  proof -
    let ?W = "set (descendants root)"
    obtain sv av and t2 :: StringTable and st where res: "serializeHeapProfile root startTimeNanos durationNanos intervalBytes =
       Some \<lparr>p_sampleType = [sv, av], p_sample = samples st, p_location = locations st,
             p_function = functions' st, p_stringTable = strings (stringTable st),
             p_timeNanos = startTimeNanos, p_durationNanos = durationNanos,
             p_periodType = av, p_period = intervalBytes\<rparr>"
      and wf: "wf_state st" and vis: "visited (fst ` set (visitOrder root)) st"
      and sam: "samples st = concat (map (\<lambda>g. heapSamples
           (fst g, map (lid st) (fst g # snd g))) (visitOrder root))"
      and nf: "namedFunctions ?W st" and dl: "describedLocations ?W st"
      and al: "allocated (locationKeys root) st"
      by (rule serializeHeapProfile_result [where prof = root and startTimeNanos = startTimeNanos
            and durationNanos = durationNanos and intervalBytes = intervalBytes and W = ?W])
    let ?p = "\<lparr>p_sampleType = [sv, av], p_sample = samples st, p_location = locations st,
             p_function = functions' st, p_stringTable = strings (stringTable st),
             p_timeNanos = startTimeNanos, p_durationNanos = durationNanos,
             p_periodType = av, p_period = intervalBytes\<rparr>"
    have eqm: "map (\<lambda>g. heapSamples (fst g, map (lid st) (fst g # snd g))) (visitOrder root) =
        map (\<lambda>g. heapSamples (fst g, map (locationIdOf root) (fst g # snd g))) (visitOrder root)"
    proof (rule map_cong [OF refl])
      fix g
      assume "g \<in> set (visitOrder root)"
      from lid_locationIdOf [OF al this]
      show "heapSamples (fst g, map (lid st) (fst g # snd g)) =
          heapSamples (fst g, map (locationIdOf root) (fst g # snd g))"
        by (simp only:)
    qed
    have "samples st = concat (map (\<lambda>g. heapSamples
           (fst g, map (locationIdOf root) (fst g # snd g))) (visitOrder root))"
      by (simp only: sam eqm)
    then have c1: "p_sample ?p = concat (map (\<lambda>g. heapSamples
           (fst g, map (locationIdOf root) (fst g # snd g))) (visitOrder root))"
      by simp
    have c2: "\<forall>g \<in> set (visitOrder root).
        ancestry root (fst g # snd g) \<and> root \<notin> set (fst g # snd g)"
    proof
      fix g
      assume "g \<in> set (visitOrder root)"
      from ancestry_visitOrder [OF this] have a: "ancestry root (fst g # snd g)" .
      with ancestry_not_root [OF a]
      show "ancestry root (fst g # snd g) \<and> root \<notin> set (fst g # snd g)" by simp
    qed
    have c3: "mset (map fst (visitOrder root)) = mset (descendants root)"
      by (rule mset_visitOrder)
    from location_ids_in_order [OF wf vis al]
    have c4: "bij_betw (\<lambda>k. indexOf (locationKeys root) k + 1) (locationKey ` ?W)
        {1..length (p_location ?p)}"
      by simp
    have c5: "\<forall>n \<in> ?W. locationOf ?p n (locationIdOf root n)"
    proof
      fix n
      assume n: "n \<in> ?W"
      from locationIdOf_lookup [OF al n]
      have "locationIdMap st (locationKey n) = Some (locationIdOf root n)" .
      from described_locationOf [OF wf nf dl n this]
      show "locationOf ?p n (locationIdOf root n)" .
    qed
    from res c1 c2 c3 c4 c5 show ?thesis
      by (intro exI [of _ ?p] conjI)
  qed
qed

theorem sample_stack_is_path_to_root_witness:
  "p_sample exTimeOutput =
     timeSamples 1 (exNodeB, [1]) @ timeSamples 1 (exNodeA, [2]) @ timeSamples 1 (exNodeC, [3, 2]) \<and>
   p_sample exTimeOutput ! 2 = \<lparr>locationId = [3, 2], sampleValue = [5, 5]\<rparr> \<and>
   ancestry (topDownRoot exTimeProfile) [exNodeC, exNodeA] \<and>
   topDownRoot exTimeProfile \<notin> set [exNodeC, exNodeA] \<and>
   locationOf exTimeOutput exNodeC 3 \<and> locationOf exTimeOutput exNodeA 2 \<and>
   p_sample exHeapOutput = heapSamples (exNodeX, [1]) @ heapSamples (exNodeY, [2, 1]) \<and>
   ancestry exHeapProfile [exNodeY, exNodeX] \<and> exHeapProfile \<notin> set [exNodeY, exNodeX] \<and>
   locationOf exHeapOutput exNodeX 1"
proof -
  let ?r = "topDownRoot exTimeProfile"
  have vo: "visitOrder ?r = [(exNodeB, []), (exNodeA, []), (exNodeC, [exNodeA])]"
    by (simp add: visitOrder_def forestOrder_def exTimeProfile_def exNodeA_def exNodeB_def
        exNodeC_def)
  have ids: "locationIdOf ?r exNodeB = 1" "locationIdOf ?r exNodeA = 2" "locationIdOf ?r exNodeC = 3"
    by code_simp+
  have ds: "exNodeC \<in> set (descendants ?r)" "exNodeA \<in> set (descendants ?r)"
    by (simp_all add: descendants_def exTimeProfile_def exNodeA_def exNodeB_def exNodeC_def)
  have vo': "visitOrder exHeapProfile = [(exNodeX, []), (exNodeY, [exNodeX])]"
    by (simp add: visitOrder_def forestOrder_def exHeapProfile_def exNodeX_def exNodeY_def)
  have ids': "locationIdOf exHeapProfile exNodeX = 1" "locationIdOf exHeapProfile exNodeY = 2"
    by code_simp+
  have ds': "exNodeX \<in> set (descendants exHeapProfile)"
    by (simp add: descendants_def exHeapProfile_def exNodeX_def exNodeY_def)
  from sample_stack_is_path_to_root [of exTimeProfile 1 exHeapProfile 0 10 512]
  have t: "p_sample exTimeOutput =
        concat (map (\<lambda>g. timeSamples 1 (fst g, map (locationIdOf ?r) (fst g # snd g)))
                  (visitOrder ?r))"
       "\<forall>g \<in> set (visitOrder ?r). ancestry ?r (fst g # snd g) \<and> ?r \<notin> set (fst g # snd g)"
       "\<forall>n \<in> set (descendants ?r). locationOf exTimeOutput n (locationIdOf ?r n)"
    and h: "p_sample exHeapOutput =
        concat (map (\<lambda>g. heapSamples (fst g, map (locationIdOf exHeapProfile) (fst g # snd g)))
                  (visitOrder exHeapProfile))"
       "\<forall>g \<in> set (visitOrder exHeapProfile).
          ancestry exHeapProfile (fst g # snd g) \<and> exHeapProfile \<notin> set (fst g # snd g)"
       "\<forall>n \<in> set (descendants exHeapProfile).
          locationOf exHeapOutput n (locationIdOf exHeapProfile n)"
    unfolding exTimeProfile_eval exHeapProfile_eval by simp_all
  from t(1) have a1: "p_sample exTimeOutput =
     timeSamples 1 (exNodeB, [1]) @ timeSamples 1 (exNodeA, [2]) @ timeSamples 1 (exNodeC, [3, 2])"
    by (simp add: vo ids)
  have a2: "p_sample exTimeOutput ! 2 = \<lparr>locationId = [3, 2], sampleValue = [5, 5]\<rparr>"
    by (simp add: exTimeOutput_def)
  have "(exNodeC, [exNodeA]) \<in> set (visitOrder ?r)" by (simp add: vo)
  with t(2) have a3: "ancestry ?r [exNodeC, exNodeA] \<and> ?r \<notin> set [exNodeC, exNodeA]"
    by fastforce
  from t(3) ds ids have a4: "locationOf exTimeOutput exNodeC 3" "locationOf exTimeOutput exNodeA 2"
    by fastforce+
  from h(1) have b1: "p_sample exHeapOutput =
      heapSamples (exNodeX, [1]) @ heapSamples (exNodeY, [2, 1])"
    by (simp add: vo' ids')
  have "(exNodeY, [exNodeX]) \<in> set (visitOrder exHeapProfile)" by (simp add: vo')
  with h(2) have b2: "ancestry exHeapProfile [exNodeY, exNodeX] \<and>
      exHeapProfile \<notin> set [exNodeY, exNodeX]"
    by fastforce
  from h(3) ds' ids' have b3: "locationOf exHeapOutput exNodeX 1"
    by fastforce
  from a1 a2 a3 a4 b1 b2 b3 show ?thesis by simp
qed

text \<open>
  Claim C3. \<open>serializeTimeProfile\<close> emits one sample for each node below the root whose
  \<open>hitCount\<close> is positive, with the values \<open>[hitCount, hitCount * intervalMicros]\<close>, and
  none for the other nodes: the values of the samples are, as a multiset, those of the
  nodes with a positive \<open>hitCount\<close>. The first values of the samples add up to the sum
  of \<open>hitCount\<close> over all nodes below the root.
\<close>

theorem time_profile_one_sample_per_hit_node:
  "\<exists>p. serializeTimeProfile prof intervalMicros = Some p \<and>
     mset (map sampleValue (p_sample p)) =
       mset (map (\<lambda>n. [int (hitCount n), int (hitCount n) * intervalMicros])
              (filter (\<lambda>n. 0 < hitCount n) (descendants (topDownRoot prof)))) \<and>
     (\<Sum>s\<leftarrow>p_sample p. sampleValue s ! 0) = int (\<Sum>n\<leftarrow>descendants (topDownRoot prof). hitCount n)"
proof -
  let ?root = "topDownRoot prof"
  let ?v = "\<lambda>n. [int (hitCount n), int (hitCount n) * intervalMicros]"
  let ?hit = "\<lambda>n. 0 < hitCount n"
  obtain sv tv and t2 :: StringTable and st where res: "serializeTimeProfile prof intervalMicros =
       Some \<lparr>p_sampleType = [sv, tv], p_sample = samples st, p_location = locations st,
             p_function = functions' st, p_stringTable = strings (stringTable st),
             p_timeNanos = startTime prof * 1000 * 1000,
             p_durationNanos = (endTime prof - startTime prof) * 1000 * 1000,
             p_periodType = tv, p_period = intervalMicros\<rparr>"
    and sam: "samples st = concat (map (\<lambda>g. timeSamples intervalMicros
           (fst g, map (lid st) (fst g # snd g))) (visitOrder ?root))"
    by (rule serializeTimeProfile_result)
  have vals: "map sampleValue (samples st) = map ?v (filter ?hit (map fst (visitOrder ?root)))"
    unfolding sam by (rule timeSamples_values)
  have m: "mset (map sampleValue (samples st)) = mset (map ?v (filter ?hit (descendants ?root)))"
  proof -
    have e: "image_mset fst (mset (visitOrder ?root)) = mset (descendants ?root)"
      using mset_visitOrder [of ?root] by simp
    have "mset (map ?v (filter ?hit (map fst (visitOrder ?root)))) =
        mset (map ?v (filter ?hit (descendants ?root)))"
      by (simp only: mset_map mset_filter e)
    with vals show ?thesis by simp
  qed
  have "(\<Sum>s\<leftarrow>samples st. sampleValue s ! 0) = (\<Sum>v\<leftarrow>map sampleValue (samples st). v ! 0)"
    by (simp add: comp_def)
  also have "\<dots> = (\<Sum>n\<leftarrow>filter ?hit (map fst (visitOrder ?root)). int (hitCount n))"
    unfolding vals by (simp add: comp_def)
  also have "\<dots> = int (\<Sum>n\<leftarrow>map fst (visitOrder ?root). hitCount n)"
    by (rule sum_hitCount_filter)
  also have "\<dots> = int (\<Sum>n\<leftarrow>descendants ?root. hitCount n)"
    using sum_list_mset_cong [OF mset_visitOrder [of ?root], of hitCount] by simp
  finally have s: "(\<Sum>s\<leftarrow>samples st. sampleValue s ! 0) = int (\<Sum>n\<leftarrow>descendants ?root. hitCount n)" .
  from res m s show ?thesis by simp
qed

text \<open>
  Claim C4. The claim is that, with \<open>startTime\<close> and \<open>endTime\<close> in nanoseconds,
  \<open>timeNanos\<close> is \<open>startTime\<close> and \<open>durationNanos\<close> is \<open>endTime - startTime\<close>. The
  function multiplies both by \<open>1000 * 1000\<close>: for a profile that starts at 1 and ends
  at 2 it yields \<open>timeNanos = 1000000\<close> and \<open>durationNanos = 1000000\<close>.
\<close>

theorem time_fields_scaled:
  "startTime exTimeProfile = 1 \<and> endTime exTimeProfile = 2 \<and>
   serializeTimeProfile exTimeProfile 1 = Some exTimeOutput \<and>
   p_timeNanos exTimeOutput = 1000000 \<and> p_durationNanos exTimeOutput = 1000000"
  using exTimeProfile_eval by (simp add: exTimeProfile_def exTimeOutput_def)

text \<open>
  Claim C5, amended. The loop takes the entry pushed last: a node is visited, then its
  children are pushed in the order of \<open>children\<close>, so the last child is serialized first,
  with its whole subtree, then the one before it, and so on; the same holds for the children
  of the root. A run only appends to the samples, the locations, the functions and the
  strings, so the samples and the new identifiers of a child come after those of the
  siblings that follow it in \<open>children\<close>.
\<close>

theorem siblings_visited_last_child_first:
  "serialize_loop app [(n, stk)] st =
     (case getLocation n st of
        None \<Rightarrow> None
      | Some (loc, st1) \<Rightarrow>
          serialize_loop app (map (\<lambda>c. (c, loc_id loc # stk)) (children n))
            (st1\<lparr>samples := app (n, loc_id loc # stk) (samples st1)\<rparr>)) \<and>
   serialize_loop app (map (\<lambda>c. (c, stk)) cs) st =
     fold (\<lambda>c r. Option.bind r (serialize_loop app [(c, stk)])) (rev cs) (Some st) \<and>
   serialize_run root app table =
     fold (\<lambda>c r. Option.bind r (serialize_loop app [(c, [])])) (rev (children root))
       (Some (initialState table)) \<and>
   ((\<forall>e ss. \<exists>new. app e ss = ss @ new) \<longrightarrow> serialize_loop app es st = Some st' \<longrightarrow>
      (\<exists>ss. samples st' = samples st @ ss) \<and> (\<exists>ls. locations st' = locations st @ ls) \<and>
      (\<exists>fs. functions' st' = functions' st @ fs) \<and>
      (\<exists>ys. strings (stringTable st') = strings (stringTable st) @ ys))"
proof (intro conjI impI)
  show "serialize_loop app [(n, stk)] st =
     (case getLocation n st of
        None \<Rightarrow> None
      | Some (loc, st1) \<Rightarrow>
          serialize_loop app (map (\<lambda>c. (c, loc_id loc # stk)) (children n))
            (st1\<lparr>samples := app (n, loc_id loc # stk) (samples st1)\<rparr>))"
    using serialize_loop_snoc [of app "[]" n stk st] by (simp split: option.splits)
  show "serialize_loop app (map (\<lambda>c. (c, stk)) cs) st =
     fold (\<lambda>c r. Option.bind r (serialize_loop app [(c, stk)])) (rev cs) (Some st)"
    by (simp add: serialize_loop_fold)
  show "serialize_run root app table =
     fold (\<lambda>c r. Option.bind r (serialize_loop app [(c, [])])) (rev (children root))
       (Some (initialState table))"
    by (simp add: serialize_loop_fold serialize_run_def)
next
  assume app: "\<forall>e ss. \<exists>new. app e ss = ss @ new" and run: "serialize_loop app es st = Some st'"
  from app have "\<And>e ss. \<exists>new. app e ss = ss @ new" by blast
  from serialize_loop_grows [of app es st st', OF this run]
  show "\<exists>ss. samples st' = samples st @ ss" "\<exists>ls. locations st' = locations st @ ls"
    "\<exists>fs. functions' st' = functions' st @ fs"
    "\<exists>ys. strings (stringTable st') = strings (stringTable st) @ ys"
    by blast+
qed

theorem siblings_visited_last_child_first_witness:
  "serialize_loop (appendTimeEntryToSamples 1) [(exNodeA, []), (exNodeB, [])] exState =
     Option.bind (serialize_loop (appendTimeEntryToSamples 1) [(exNodeB, [])] exState)
       (serialize_loop (appendTimeEntryToSamples 1) [(exNodeA, [])]) \<and>
   serialize_loop (appendTimeEntryToSamples 1) [(exNodeB, [])] exState \<noteq> None \<and>
   (\<exists>ss ls fs. samples (the (serialize_loop (appendTimeEntryToSamples 1) [(exNodeB, [])] exState)) =
        samples exState @ ss \<and>
      locations (the (serialize_loop (appendTimeEntryToSamples 1) [(exNodeB, [])] exState)) =
        locations exState @ ls \<and>
      functions' (the (serialize_loop (appendTimeEntryToSamples 1) [(exNodeB, [])] exState)) =
        functions' exState @ fs)"
proof -
  let ?app = "appendTimeEntryToSamples 1"
  let ?r = "serialize_loop ?app [(exNodeB, [])] exState"
  have some: "?r \<noteq> None" by code_simp
  then have run: "?r = Some (the ?r)" by simp
  have app: "\<forall>e ss. \<exists>new. ?app e ss = ss @ new"
    by (simp add: appendTimeEntryToSamples_appends)
  note inst = siblings_visited_last_child_first [of ?app exNodeA "[]" exState "[exNodeA, exNodeB]"
      "topDownRoot exTimeProfile" newStringTable "[(exNodeB, [])]" "the ?r"]
  from inst have "serialize_loop ?app [(exNodeA, []), (exNodeB, [])] exState =
     Option.bind ?r (serialize_loop ?app [(exNodeA, [])])"
    by simp
  moreover from inst app run have "\<exists>ss ls fs. samples (the ?r) = samples exState @ ss \<and>
      locations (the ?r) = locations exState @ ls \<and> functions' (the ?r) = functions' exState @ fs"
    by blast
  ultimately show ?thesis using some by blast
qed

text \<open>
  The claim as stated fails: of the two children \<open>exNodeA\<close>, \<open>exNodeB\<close> of the root,
  both with a positive \<open>hitCount\<close>, the later one \<open>exNodeB\<close> gets the first sample and
  location 1, the earlier one \<open>exNodeA\<close> the second sample and location 2.
\<close>

theorem sibling_order_counterexample:
  "children (topDownRoot exTimeProfile) = [exNodeA, exNodeB] \<and>
   0 < hitCount exNodeA \<and> 0 < hitCount exNodeB \<and>
   serializeTimeProfile exTimeProfile 1 = Some exTimeOutput \<and>
   p_sample exTimeOutput ! 0 =
     \<lparr>locationId = [1], sampleValue = [int (hitCount exNodeB), int (hitCount exNodeB) * 1]\<rparr> \<and>
   p_sample exTimeOutput ! 1 =
     \<lparr>locationId = [2], sampleValue = [int (hitCount exNodeA), int (hitCount exNodeA) * 1]\<rparr> \<and>
   loc_line (p_location exTimeOutput ! 0) = [\<lparr>functionId = 1, line = lineNumber exNodeB\<rparr>] \<and>
   loc_line (p_location exTimeOutput ! 1) = [\<lparr>functionId = 2, line = lineNumber exNodeA\<rparr>]"
  using exTimeProfile_eval
  by (simp add: exTimeProfile_def exTimeOutput_def exNodeA_def exNodeB_def)

text \<open>
  Claim C6. The claim is that a new function entry has \<open>startLine\<close> equal to the line
  number of the node. \<open>getFunction\<close> does not set \<open>startLine\<close>: for the node
  \<open>f\<close> of \<open>a.js\<close> at line 10 the entry has the indices of \<open>f\<close> and \<open>a.js\<close> as name,
  system name and file name, and \<open>startLine = 0\<close>. \<open>Profile::functionID\<close> of the native
  serializer gives the same node \<open>startLine = 10\<close>.
\<close>

theorem function_entry_start_line:
  "serializeTimeProfile exS1 1000 =
     Some \<lparr>p_sampleType = [\<lparr>vt_type = 1, vt_unit = 2\<rparr>, \<lparr>vt_type = 3, vt_unit = 4\<rparr>],
           p_sample = [\<lparr>locationId = [1], sampleValue = [3, 3000]\<rparr>],
           p_location = [\<lparr>loc_id = 1, loc_line = [\<lparr>functionId = 1, line = 10\<rparr>]\<rparr>],
           p_function = [\<lparr>fn_id = 1, fn_name = 5, fn_systemName = 5, fn_filename = 6,
                          fn_startLine = 0\<rparr>],
           p_stringTable = [[], ''samples'', ''count'', ''time'', ''microseconds'', ''f'', ''a.js''],
           p_timeNanos = 0, p_durationNanos = 10000000000000000,
           p_periodType = \<lparr>vt_type = 3, vt_unit = 4\<rparr>, p_period = 1000\<rparr> \<and>
   map lineNumber (children (topDownRoot exS1)) = [10] \<and>
   c_function (snd (functionID exNode exProfile)) =
     [\<lparr>pf_id = 1, pf_nameX = 3, pf_systemNameX = 3, pf_filenameX = 4, pf_startLine = 10\<rparr>] \<and>
   n_lineNumber exNode = 10"
  by code_simp

text \<open>
  Claim C7. Interning is idempotent: a second call of \<open>getIndexOrAdd\<close>, \<open>getFunction\<close>
  or \<open>getLocation\<close> with the same argument returns what the first call returned and
  leaves the tables as the first call left them, so no table grows; the same holds for
  \<open>stringID\<close>, \<open>functionID\<close> and \<open>locationID\<close> of the native serializer. On a
  well-formed state \<open>getFunction\<close> and \<open>getLocation\<close> return an entry.
\<close>

theorem interning_twice:
  "(getIndexOrAdd s t = (i, t1) \<longrightarrow> getIndexOrAdd s t1 = (i, t1)) \<and>
   (getFunction n st = Some (f, st1) \<longrightarrow> getFunction n st1 = Some (f, st1)) \<and>
   (getLocation n st = Some (l, st2) \<longrightarrow> getLocation n st2 = Some (l, st2)) \<and>
   (wf_state st \<longrightarrow> getFunction n st \<noteq> None \<and> getLocation n st \<noteq> None) \<and>
   (stringID s p = (j, p1) \<longrightarrow> stringID s p1 = (j, p1)) \<and>
   (functionID cn p = (k, p2) \<longrightarrow> functionID cn p2 = (k, p2)) \<and>
   (locationID cn p = (m, p3) \<longrightarrow> locationID cn p3 = (m, p3))"
  using getIndexOrAdd_again [of s t i t1] getFunction_again [of n st f st1]
    getLocation_again [of n st l st2] getFunction_total [of st n] getLocation_total [of st n]
    stringID_again [of s p j p1] functionID_again [of cn p k p2] locationID_again [of cn p m p3]
  by blast

theorem interning_twice_witness:
  "fst (getIndexOrAdd ''f'' newStringTable) = 1 \<and>
   fst (getIndexOrAdd ''f'' (snd (getIndexOrAdd ''f'' newStringTable))) = 1 \<and>
   length (strings (snd (getIndexOrAdd ''f'' (snd (getIndexOrAdd ''f'' newStringTable))))) = 2 \<and>
   map_option (fn_id \<circ> fst) (getFunction exNodeA exState) = Some 1 \<and>
   map_option (fn_id \<circ> fst) (getFunction exNodeA (snd (the (getFunction exNodeA exState)))) = Some 1 \<and>
   map_option (length \<circ> functions' \<circ> snd)
     (getFunction exNodeA (snd (the (getFunction exNodeA exState)))) = Some 1 \<and>
   map_option (loc_id \<circ> fst) (getLocation exNodeA exState) = Some 1 \<and>
   map_option (loc_id \<circ> fst) (getLocation exNodeA (snd (the (getLocation exNodeA exState)))) = Some 1 \<and>
   map_option (length \<circ> locations \<circ> snd)
     (getLocation exNodeA (snd (the (getLocation exNodeA exState)))) = Some 1 \<and>
   fst (stringID ''f'' exProfile) = 3 \<and>
   fst (stringID ''f'' (snd (stringID ''f'' exProfile))) = 3 \<and>
   length (c_strings (snd (stringID ''f'' (snd (stringID ''f'' exProfile))))) = 4 \<and>
   fst (functionID exNode exProfile) = 1 \<and>
   fst (functionID exNode (snd (functionID exNode exProfile))) = 1 \<and>
   fst (locationID exNode exProfile) = 1 \<and>
   fst (locationID exNode (snd (locationID exNode exProfile))) = 1"
proof -
  let ?t1 = "snd (getIndexOrAdd ''f'' newStringTable)"
  let ?f = "fst (the (getFunction exNodeA exState))"
  let ?st1 = "snd (the (getFunction exNodeA exState))"
  let ?l = "fst (the (getLocation exNodeA exState))"
  let ?st2 = "snd (the (getLocation exNodeA exState))"
  let ?p1 = "snd (stringID ''f'' exProfile)"
  let ?p2 = "snd (functionID exNode exProfile)"
  let ?p3 = "snd (locationID exNode exProfile)"
  have s1: "getIndexOrAdd ''f'' newStringTable = (1, ?t1)"
    and s1len: "length (strings ?t1) = 2"
    by (simp_all add: newStringTable_def getIndexOrAdd_def Let_def)
  have f1: "map_option (fn_id \<circ> fst) (getFunction exNodeA exState) = Some 1"
    and l1: "map_option (loc_id \<circ> fst) (getLocation exNodeA exState) = Some 1"
    and f1len: "length (functions' ?st1) = 1" and l1len: "length (locations ?st2) = 1"
    by code_simp+
  then have f1': "getFunction exNodeA exState = Some (?f, ?st1)"
    and l1': "getLocation exNodeA exState = Some (?l, ?st2)"
    by auto
  have c1: "fst (stringID ''f'' exProfile) = 3" "length (c_strings ?p1) = 4"
    "fst (functionID exNode exProfile) = 1" "fst (locationID exNode exProfile) = 1"
    by code_simp+
  have c1': "stringID ''f'' exProfile = (3, ?p1)" "functionID exNode exProfile = (1, ?p2)"
    "locationID exNode exProfile = (1, ?p3)"
    using c1 by (simp_all add: prod_eq_iff)
  from interning_twice [of "''f''" newStringTable 1 ?t1 exNodeA exState ?f ?st1 ?l ?st2
      exProfile 3 ?p1 exNode 1 ?p2 1 ?p3] s1 f1' l1' c1'
  have again: "getIndexOrAdd ''f'' ?t1 = (1, ?t1)" "getFunction exNodeA ?st1 = Some (?f, ?st1)"
    "getLocation exNodeA ?st2 = Some (?l, ?st2)" "stringID ''f'' ?p1 = (3, ?p1)"
    "functionID exNode ?p2 = (1, ?p2)" "locationID exNode ?p3 = (1, ?p3)"
    by simp_all
  have fid: "fn_id ?f = 1" and lid: "loc_id ?l = 1"
    by code_simp+
  have w1: "fst (getIndexOrAdd ''f'' newStringTable) = 1"
    by (simp add: newStringTable_def getIndexOrAdd_def Let_def)
  have w2: "fst (getIndexOrAdd ''f'' ?t1) = 1" "length (strings (snd (getIndexOrAdd ''f'' ?t1))) = 2"
    by (simp_all only: again(1) fst_conv snd_conv s1len)
  have w3: "map_option (fn_id \<circ> fst) (getFunction exNodeA ?st1) = Some 1"
    "map_option (length \<circ> functions' \<circ> snd) (getFunction exNodeA ?st1) = Some 1"
    by (simp_all only: again(2) option.map comp_apply fst_conv snd_conv fid f1len)
  have w4: "map_option (loc_id \<circ> fst) (getLocation exNodeA ?st2) = Some 1"
    "map_option (length \<circ> locations \<circ> snd) (getLocation exNodeA ?st2) = Some 1"
    by (simp_all only: again(3) option.map comp_apply fst_conv snd_conv lid l1len)
  have w5: "fst (stringID ''f'' ?p1) = 3" "length (c_strings (snd (stringID ''f'' ?p1))) = 4"
    "fst (functionID exNode ?p2) = 1" "fst (locationID exNode ?p3) = 1"
    by (simp_all only: again(4,5,6) fst_conv snd_conv c1(2))
  show ?thesis
    by (intro conjI) (fact w1 w2 w3 w4 w5 f1 l1 c1)+
qed



text \<open>
  Claim C9. The string table of every profile built by \<open>serializeTimeProfile\<close> or
  \<open>serializeHeapProfile\<close> has the empty string at index 0, as a new \<open>StringTable\<close> has
  and as the strings of a \<open>Profile\<close> constructed by the native serializer have.
\<close>

theorem string_table_starts_with_empty_string:
  "(\<exists>p. serializeTimeProfile prof intervalMicros = Some p \<and> p_stringTable p ! 0 = []) \<and>
   (\<exists>p. serializeHeapProfile root startTimeNanos durationNanos intervalBytes = Some p \<and>
        p_stringTable p ! 0 = []) \<and>
   strings newStringTable ! 0 = [] \<and>
   c_strings (newProfile typeFirst periodType periodUnit period timeNanos durationNanos
     dropFrames keepFrames) ! 0 = []"
proof (intro conjI)
  show "\<exists>p. serializeTimeProfile prof intervalMicros = Some p \<and> p_stringTable p ! 0 = []"
  proof (rule serializeTimeProfile_result [where prof = prof and i = intervalMicros])
    fix sv tv st
    assume "serializeTimeProfile prof intervalMicros =
       Some \<lparr>p_sampleType = [sv, tv], p_sample = samples st, p_location = locations st,
             p_function = functions' st, p_stringTable = strings (stringTable st),
             p_timeNanos = startTime prof * 1000 * 1000,
             p_durationNanos = (endTime prof - startTime prof) * 1000 * 1000,
             p_periodType = tv, p_period = intervalMicros\<rparr>"
      and "strings (stringTable st) ! 0 = []"
    then show ?thesis by simp
  qed
  show "\<exists>p. serializeHeapProfile root startTimeNanos durationNanos intervalBytes = Some p \<and>
        p_stringTable p ! 0 = []"
  proof (rule serializeHeapProfile_result [where prof = root and startTimeNanos = startTimeNanos
        and durationNanos = durationNanos and intervalBytes = intervalBytes])
    fix sv av st
    assume "serializeHeapProfile root startTimeNanos durationNanos intervalBytes =
       Some \<lparr>p_sampleType = [sv, av], p_sample = samples st, p_location = locations st,
             p_function = functions' st, p_stringTable = strings (stringTable st),
             p_timeNanos = startTimeNanos, p_durationNanos = durationNanos,
             p_periodType = av, p_period = intervalBytes\<rparr>"
      and "strings (stringTable st) ! 0 = []"
    then show ?thesis by simp
  qed
  show "strings newStringTable ! 0 = []"
    by (simp add: strings_new)
  show "c_strings (newProfile typeFirst periodType periodUnit period timeNanos durationNanos
     dropFrames keepFrames) ! 0 = []"
    using newProfile_strings [of typeFirst periodType periodUnit period timeNanos durationNanos
      dropFrames keepFrames] by auto
qed

text \<open>
  Claim C10. Every node below the root is interned, whether or not it yields a sample: the
  number of locations of the profile is the number of distinct location keys among these
  nodes, and the number of functions is the number of their distinct function keys. The
  payloads (\<open>hitCount\<close>, \<open>allocations\<close>) do not occur in these numbers.
\<close>

theorem every_node_is_interned:
  "(\<exists>p. serializeTimeProfile prof intervalMicros = Some p \<and>
      length (p_location p) = card (locationKey ` set (descendants (topDownRoot prof))) \<and>
      length (p_function p) = card (functionKey ` set (descendants (topDownRoot prof)))) \<and>
   (\<exists>p. serializeHeapProfile root startTimeNanos durationNanos intervalBytes = Some p \<and>
      length (p_location p) = card (locationKey ` set (descendants root)) \<and>
      length (p_function p) = card (functionKey ` set (descendants root)))"
proof
  show "\<exists>p. serializeTimeProfile prof intervalMicros = Some p \<and>
      length (p_location p) = card (locationKey ` set (descendants (topDownRoot prof))) \<and>
      length (p_function p) = card (functionKey ` set (descendants (topDownRoot prof)))"
  proof -
    obtain sv tv and t2 :: StringTable and st where res: "serializeTimeProfile prof intervalMicros =
       Some \<lparr>p_sampleType = [sv, tv], p_sample = samples st, p_location = locations st,
             p_function = functions' st, p_stringTable = strings (stringTable st),
             p_timeNanos = startTime prof * 1000 * 1000,
             p_durationNanos = (endTime prof - startTime prof) * 1000 * 1000,
             p_periodType = tv, p_period = intervalMicros\<rparr>"
      and vis: "visited (fst ` set (visitOrder (topDownRoot prof))) st"
      by (rule serializeTimeProfile_result)
    from vis have "length (locations st) = card (locationKey ` set (descendants (topDownRoot prof)))"
      "length (functions' st) = card (functionKey ` set (descendants (topDownRoot prof)))"
      by (simp_all add: visited_def set_visitOrder)
    with res show ?thesis by simp
  qed
  show "\<exists>p. serializeHeapProfile root startTimeNanos durationNanos intervalBytes = Some p \<and>
      length (p_location p) = card (locationKey ` set (descendants root)) \<and>
      length (p_function p) = card (functionKey ` set (descendants root))"
  proof -
    obtain sv av and t2 :: StringTable and st where res: "serializeHeapProfile root startTimeNanos durationNanos intervalBytes =
       Some \<lparr>p_sampleType = [sv, av], p_sample = samples st, p_location = locations st,
             p_function = functions' st, p_stringTable = strings (stringTable st),
             p_timeNanos = startTimeNanos, p_durationNanos = durationNanos,
             p_periodType = av, p_period = intervalBytes\<rparr>"
      and vis: "visited (fst ` set (visitOrder root)) st"
      by (rule serializeHeapProfile_result)
    from vis have "length (locations st) = card (locationKey ` set (descendants root))"
      "length (functions' st) = card (functionKey ` set (descendants root))"
      by (simp_all add: visited_def set_visitOrder)
    with res show ?thesis by simp
  qed
qed

end
